theory Spec2Isabelle
  imports Main
begin

section \<open>Expression nodes\<close>

text \<open>
  Modelled from the spec: the node classes of \<^verbatim>\<open>pathway.internals.expression\<close> are not
  among the sources, so the tree follows the data model of the specification (section 3),
  with the field names \<^verbatim>\<open>desugaring.py\<close> reads (\<^verbatim>\<open>_args\<close>, \<^verbatim>\<open>_val\<close>, \<^verbatim>\<open>_optional\<close>,
  \<^verbatim>\<open>_column_expression\<close>, \<^verbatim>\<open>_keys_expression\<close>, \<^verbatim>\<open>_col_expr\<close>, \<^verbatim>\<open>_reducer\<close>, \<^verbatim>\<open>_table\<close>).

  A relation is an opaque identity. The owner of a column reference or of a pointer is
  \<^verbatim>\<open>table.Joinable | thisclass.ThisMetaclass\<close> (\<^verbatim>\<open>_desugar_table\<close>, line 56): a concrete
  relation, or a placeholder class that stands for a scope token.
\<close>

datatype owner = Table nat | This nat

text \<open>
  A Python value that is neither a column expression nor a relation nor a placeholder
  class: None, a scalar, or any other object (by its identity). It is what a
  \<^verbatim>\<open>ColumnConstExpression\<close> holds.
\<close>

datatype pyobject = PyNone | PyBool bool | PyInt int | PyStr string | PyObject nat

text \<open>
  The base of an indexed lookup is a column reference, kept as its owner and its name:
  \<^verbatim>\<open>eval_ix\<close> hands \<^verbatim>\<open>expression._column_expression\<close> to the column-reference handler
  (line 108), whose parameter is an \<^verbatim>\<open>expr.ColumnReference\<close>.
\<close>

datatype expr =
    ColumnReference owner string
  | ColumnConstExpression pyobject
  | ColumnIxExpression owner string expr bool
  | RequireExpression expr "expr list"
  | ReducerExpression nat "expr list"
  | MethodCallExpression nat nat string "expr list"
  | ColumnCallExpression expr "expr list"
  | PointerExpression owner "expr list" bool

section \<open>Null-flooding: TableReplacementWithNoneDesugaring\<close>

text \<open>
  The test of lines 122 and 123: the node is a \<^verbatim>\<open>ColumnConstExpression\<close> and its value
  \<^verbatim>\<open>is None\<close>.
\<close>

fun is_none_const :: "expr \<Rightarrow> bool" where
  "is_none_const (ColumnConstExpression v) = (v = PyNone)"
| "is_none_const _ = False"

text \<open>
  Modelled from the spec: \<^verbatim>\<open>IdentityTransform.eval_column_val\<close> (the class
  \<^verbatim>\<open>IdentityTransform\<close> of \<^verbatim>\<open>expression_visitor.py\<close> is not among the sources) rebuilds
  the column reference from its owner and its name.
\<close>

definition identity_eval_column_val :: "owner \<Rightarrow> string \<Rightarrow> owner \<times> string" where
  "identity_eval_column_val tbl name = (tbl, name)"

text \<open>
  One run of \<^verbatim>\<open>TableReplacementWithNoneDesugaring(table).eval_expression\<close>: the rewritten
  node, and the nodes \<^verbatim>\<open>eval_expression\<close> was called on, in call order. The handlers
  \<^verbatim>\<open>eval_column_val\<close> (lines 99 to 105), \<^verbatim>\<open>eval_ix\<close> (107 to 114) and \<^verbatim>\<open>eval_require\<close>
  (116 to 125) are the class's own. \<^verbatim>\<open>eval_ix\<close> calls \<^verbatim>\<open>super().eval_column_val\<close> on the
  base, so the base goes to the inherited handler and not through \<^verbatim>\<open>eval_expression\<close>.
  Modelled from the spec (section 4.1): the handlers of every other node kind are the
  inherited ones of \<^verbatim>\<open>IdentityTransform\<close>, which rewrite the children and rebuild the node.
\<close>

fun replacement_run :: "owner \<Rightarrow> expr \<Rightarrow> expr \<times> expr list" where
  "replacement_run tbl (ColumnReference t name) =
     (if t = tbl then ColumnConstExpression PyNone
      else (case identity_eval_column_val t name of (t', name') \<Rightarrow> ColumnReference t' name'),
      [ColumnReference t name])"
| "replacement_run tbl (ColumnConstExpression v) =
     (ColumnConstExpression v, [ColumnConstExpression v])"
| "replacement_run tbl (ColumnIxExpression t name keys optional) =
     (let column_expression = identity_eval_column_val t name;
          keys_run = replacement_run tbl keys
      in (ColumnIxExpression (fst column_expression) (snd column_expression)
            (fst keys_run) optional,
          ColumnIxExpression t name keys optional # snd keys_run))"
| "replacement_run tbl (RequireExpression val args) =
     (let val_run = replacement_run tbl val;
          args_run = map (replacement_run tbl) args;
          args' = map fst args_run
      in (if list_ex is_none_const args' then ColumnConstExpression PyNone
          else RequireExpression (fst val_run) args',
          RequireExpression val args # snd val_run @ concat (map snd args_run)))"
| "replacement_run tbl (ReducerExpression reducer args) =
     (let args_run = map (replacement_run tbl) args
      in (ReducerExpression reducer (map fst args_run),
          ReducerExpression reducer args # concat (map snd args_run)))"
| "replacement_run tbl (MethodCallExpression dispatch rtype op_name args) =
     (let args_run = map (replacement_run tbl) args
      in (MethodCallExpression dispatch rtype op_name (map fst args_run),
          MethodCallExpression dispatch rtype op_name args # concat (map snd args_run)))"
| "replacement_run tbl (ColumnCallExpression col_expr args) =
     (let col_run = replacement_run tbl col_expr;
          args_run = map (replacement_run tbl) args
      in (ColumnCallExpression (fst col_run) (map fst args_run),
          ColumnCallExpression col_expr args # snd col_run @ concat (map snd args_run)))"
| "replacement_run tbl (PointerExpression t args optional) =
     (let args_run = map (replacement_run tbl) args
      in (PointerExpression t (map fst args_run) optional,
          PointerExpression t args optional # concat (map snd args_run)))"

definition table_replacement_with_none :: "owner \<Rightarrow> expr \<Rightarrow> expr" where
  "table_replacement_with_none tbl = (\<lambda>e. fst (replacement_run tbl e))"

definition replacement_visited :: "owner \<Rightarrow> expr \<Rightarrow> expr list" where
  "replacement_visited tbl = (\<lambda>e. snd (replacement_run tbl e))"

text \<open>
  The owners of the column references an expression holds: those in the positions
  \<^verbatim>\<open>eval_expression\<close> reaches, and those that are the base of an indexed lookup.
\<close>

fun reference_owners :: "expr \<Rightarrow> owner list" where
  "reference_owners (ColumnReference t name) = [t]"
| "reference_owners (ColumnConstExpression v) = []"
| "reference_owners (ColumnIxExpression t name keys optional) = reference_owners keys"
| "reference_owners (RequireExpression val args) =
     reference_owners val @ concat (map reference_owners args)"
| "reference_owners (ReducerExpression reducer args) = concat (map reference_owners args)"
| "reference_owners (MethodCallExpression dispatch rtype op_name args) =
     concat (map reference_owners args)"
| "reference_owners (ColumnCallExpression col_expr args) =
     reference_owners col_expr @ concat (map reference_owners args)"
| "reference_owners (PointerExpression t args optional) = concat (map reference_owners args)"

fun ix_base_owners :: "expr \<Rightarrow> owner list" where
  "ix_base_owners (ColumnReference t name) = []"
| "ix_base_owners (ColumnConstExpression v) = []"
| "ix_base_owners (ColumnIxExpression t name keys optional) = t # ix_base_owners keys"
| "ix_base_owners (RequireExpression val args) =
     ix_base_owners val @ concat (map ix_base_owners args)"
| "ix_base_owners (ReducerExpression reducer args) = concat (map ix_base_owners args)"
| "ix_base_owners (MethodCallExpression dispatch rtype op_name args) =
     concat (map ix_base_owners args)"
| "ix_base_owners (ColumnCallExpression col_expr args) =
     ix_base_owners col_expr @ concat (map ix_base_owners args)"
| "ix_base_owners (PointerExpression t args optional) = concat (map ix_base_owners args)"

text \<open>No \<^verbatim>\<open>RequireExpression\<close> of the expression has a guard that is the constant None.\<close>

fun no_none_guard :: "expr \<Rightarrow> bool" where
  "no_none_guard (ColumnReference t name) = True"
| "no_none_guard (ColumnConstExpression v) = True"
| "no_none_guard (ColumnIxExpression t name keys optional) = no_none_guard keys"
| "no_none_guard (RequireExpression val args) =
     (\<not> list_ex is_none_const args \<and> no_none_guard val \<and> list_all no_none_guard args)"
| "no_none_guard (ReducerExpression reducer args) = list_all no_none_guard args"
| "no_none_guard (MethodCallExpression dispatch rtype op_name args) =
     list_all no_none_guard args"
| "no_none_guard (ColumnCallExpression col_expr args) =
     (no_none_guard col_expr \<and> list_all no_none_guard args)"
| "no_none_guard (PointerExpression t args optional) = list_all no_none_guard args"

text \<open>
  Null-flooding in the words of the specification (section 4.3), to compare the rewriter
  with: first every column reference owned by the relation, in the positions the
  traversal reaches, is replaced by the constant None and everything else is kept
  (\<open>references_nulled\<close>); then, from the leaves up, every require expression one of
  whose guards is the constant None becomes that constant (\<open>requires_collapsed\<close>).
\<close>

fun references_nulled :: "owner \<Rightarrow> expr \<Rightarrow> expr" where
  "references_nulled tbl (ColumnReference t name) =
     (if t = tbl then ColumnConstExpression PyNone else ColumnReference t name)"
| "references_nulled tbl (ColumnConstExpression v) = ColumnConstExpression v"
| "references_nulled tbl (ColumnIxExpression t name keys optional) =
     ColumnIxExpression t name (references_nulled tbl keys) optional"
| "references_nulled tbl (RequireExpression val args) =
     RequireExpression (references_nulled tbl val) (map (references_nulled tbl) args)"
| "references_nulled tbl (ReducerExpression reducer args) =
     ReducerExpression reducer (map (references_nulled tbl) args)"
| "references_nulled tbl (MethodCallExpression dispatch rtype op_name args) =
     MethodCallExpression dispatch rtype op_name (map (references_nulled tbl) args)"
| "references_nulled tbl (ColumnCallExpression col_expr args) =
     ColumnCallExpression (references_nulled tbl col_expr) (map (references_nulled tbl) args)"
| "references_nulled tbl (PointerExpression t args optional) =
     PointerExpression t (map (references_nulled tbl) args) optional"

fun requires_collapsed :: "expr \<Rightarrow> expr" where
  "requires_collapsed (ColumnReference t name) = ColumnReference t name"
| "requires_collapsed (ColumnConstExpression v) = ColumnConstExpression v"
| "requires_collapsed (ColumnIxExpression t name keys optional) =
     ColumnIxExpression t name (requires_collapsed keys) optional"
| "requires_collapsed (RequireExpression val args) =
     (if list_ex is_none_const (map requires_collapsed args) then ColumnConstExpression PyNone
      else RequireExpression (requires_collapsed val) (map requires_collapsed args))"
| "requires_collapsed (ReducerExpression reducer args) =
     ReducerExpression reducer (map requires_collapsed args)"
| "requires_collapsed (MethodCallExpression dispatch rtype op_name args) =
     MethodCallExpression dispatch rtype op_name (map requires_collapsed args)"
| "requires_collapsed (ColumnCallExpression col_expr args) =
     ColumnCallExpression (requires_collapsed col_expr) (map requires_collapsed args)"
| "requires_collapsed (PointerExpression t args optional) =
     PointerExpression t (map requires_collapsed args) optional"

section \<open>Errors and Python containers\<close>

text \<open>
  Every \<^verbatim>\<open>raise\<close> and \<^verbatim>\<open>assert\<close> of \<^verbatim>\<open>desugaring.py\<close> is a value. An assertion is named
  by its place: line 283 (\<^verbatim>\<open>len(named_args) > 0\<close>), line 294 (the declared scope binding
  names an argument by a string), line 210 (a placeholder passed positionally is an
  \<^verbatim>\<open>iter_guard\<close>), line 232 (a keyword starting with the key guard holds a placeholder),
  line 249 (the value is not a \<^verbatim>\<open>Table\<close>). \<^verbatim>\<open>External\<close> is an exception of a collaborator
  that is not among the sources, by an opaque code; \<^verbatim>\<open>UnresolvedScope\<close> and
  \<^verbatim>\<open>NotARelation\<close> are the failures of the placeholder lookup described below.
\<close>

datatype assertion =
    NamedArgsEmpty
  | BindingNotStr
  | NotIterGuard
  | KeyGuardNotThis
  | ExpressionIsTable

datatype error =
    AssertionError assertion
  | KeyError string
  | DuplicateName "string option"
  | ReservedName
  | UnresolvedScope nat
  | NotARelation
  | External nat

definition external :: "nat + 'a \<Rightarrow> error + 'a" where
  "external r = (case r of Inl code \<Rightarrow> Inl (External code) | Inr x \<Rightarrow> Inr x)"

text \<open>
  A list comprehension \<^verbatim>\<open>[f(x) for x in xs]\<close> over a function that may raise: the results
  in order, or the first exception.
\<close>

fun collect :: "(error + 'a) list \<Rightarrow> error + 'a list" where
  "collect [] = Inr []"
| "collect (Inl e # rs) = Inl e"
| "collect (Inr x # rs) = (case collect rs of Inl e \<Rightarrow> Inl e | Inr xs \<Rightarrow> Inr (x # xs))"

text \<open>
  A Python \<^verbatim>\<open>dict\<close> is the list of its items in insertion order. Storing under a key
  that is present replaces the value in place; a new key goes to the end.
\<close>

fun dict_set :: "('k \<times> 'v) list \<Rightarrow> 'k \<Rightarrow> 'v \<Rightarrow> ('k \<times> 'v) list" where
  "dict_set [] k v = [(k, v)]"
| "dict_set ((k', v') # d) k v = (if k' = k then (k, v) # d else (k', v') # dict_set d k v)"

fun dict_update :: "('k \<times> 'v) list \<Rightarrow> ('k \<times> 'v) list \<Rightarrow> ('k \<times> 'v) list" where
  "dict_update d [] = d"
| "dict_update d ((k, v) # items) = dict_update (dict_set d k v) items"

definition py_dict :: "('k \<times> 'v) list \<Rightarrow> ('k \<times> 'v) list" where
  "py_dict items = dict_update [] items"

section \<open>Self-reference resolution: ThisDesugaring\<close>

text \<open>
  A value bound to a parameter of an intercepted call, by the \<^verbatim>\<open>isinstance\<close> tests of
  \<^verbatim>\<open>desugaring.py\<close>: a \<^verbatim>\<open>DesugaringContext\<close> (a relation, a joinable or a grouped
  relation, by its identity), a placeholder class (\<^verbatim>\<open>thisclass.ThisMetaclass\<close>, by its
  scope token), a column expression, or any other object.
\<close>

datatype pyval =
    Context nat
  | Placeholder nat
  | Expression expr
  | Object pyobject

type_synonym substitution = "nat \<Rightarrow> pyval option"

text \<open>
  Modelled from the spec: \<^verbatim>\<open>ThisMetaclass._eval_substitution\<close> (\<^verbatim>\<open>thisclass.py\<close> is not
  among the sources) looks the scope token up in the mapping; a miss is an error
  (section 4.2).
\<close>

definition eval_substitution :: "substitution \<Rightarrow> nat \<Rightarrow> error + pyval" where
  "eval_substitution s k = (case s k of None \<Rightarrow> Inl (UnresolvedScope k) | Some v \<Rightarrow> Inr v)"

text \<open>\<^verbatim>\<open>ThisDesugaring._desugar_table\<close>, lines 55 to 63.\<close>

definition desugar_table :: "substitution \<Rightarrow> owner \<Rightarrow> error + pyval" where
  "desugar_table s tbl =
     (case tbl of This k \<Rightarrow> eval_substitution s k | Table n \<Rightarrow> Inr (Context n))"

text \<open>
  Modelled from the spec: what \<^verbatim>\<open>table[name]\<close> (line 41) and the constructor of
  \<^verbatim>\<open>PointerExpression\<close> (line 51) take as the relation (\<^verbatim>\<open>table.py\<close> and \<^verbatim>\<open>expression.py\<close>
  are not among the sources). The substitution is declared to hold joinables; a
  relation and a placeholder class own columns, any other value does not.
\<close>

definition as_relation :: "pyval \<Rightarrow> error + owner" where
  "as_relation v =
     (case v of Context n \<Rightarrow> Inr (Table n) | Placeholder k \<Rightarrow> Inr (This k)
      | _ \<Rightarrow> Inl NotARelation)"

text \<open>\<^verbatim>\<open>ThisDesugaring.eval_column_val\<close>, lines 39 to 41: the owner and the name of the
  reference \<^verbatim>\<open>table[expression.name]\<close>.\<close>

definition this_eval_column_val :: "substitution \<Rightarrow> owner \<Rightarrow> string \<Rightarrow> error + owner \<times> string" where
  "this_eval_column_val s tbl name =
     (case desugar_table s tbl of Inl e \<Rightarrow> Inl e
      | Inr v \<Rightarrow> (case as_relation v of Inl e \<Rightarrow> Inl e | Inr t \<Rightarrow> Inr (t, name)))"

text \<open>
  \<^verbatim>\<open>ThisDesugaring(substitution).eval_expression\<close>. \<^verbatim>\<open>eval_column_val\<close> and \<^verbatim>\<open>eval_pointer\<close>
  (lines 43 to 53: the arguments first, then the relation) are the class's own.
  Modelled from the spec (section 4.1): every other node kind has the inherited handler
  of \<^verbatim>\<open>IdentityTransform\<close>, which rewrites the children through \<^verbatim>\<open>eval_expression\<close> and
  rebuilds the node; the order among the children of one node only decides which of two
  errors is reported.
\<close>

fun this_desugaring :: "substitution \<Rightarrow> expr \<Rightarrow> error + expr" where
  "this_desugaring s (ColumnReference tbl name) =
     (case this_eval_column_val s tbl name of Inl e \<Rightarrow> Inl e
      | Inr (t, n) \<Rightarrow> Inr (ColumnReference t n))"
| "this_desugaring s (ColumnConstExpression v) = Inr (ColumnConstExpression v)"
| "this_desugaring s (ColumnIxExpression tbl name keys optional) =
     (case this_eval_column_val s tbl name of Inl e \<Rightarrow> Inl e
      | Inr (t, n) \<Rightarrow>
          (case this_desugaring s keys of Inl e \<Rightarrow> Inl e
           | Inr keys' \<Rightarrow> Inr (ColumnIxExpression t n keys' optional)))"
| "this_desugaring s (RequireExpression val args) =
     (case this_desugaring s val of Inl e \<Rightarrow> Inl e
      | Inr val' \<Rightarrow>
          (case collect (map (this_desugaring s) args) of Inl e \<Rightarrow> Inl e
           | Inr args' \<Rightarrow> Inr (RequireExpression val' args')))"
| "this_desugaring s (ReducerExpression reducer args) =
     (case collect (map (this_desugaring s) args) of Inl e \<Rightarrow> Inl e
      | Inr args' \<Rightarrow> Inr (ReducerExpression reducer args'))"
| "this_desugaring s (MethodCallExpression dispatch rtype op_name args) =
     (case collect (map (this_desugaring s) args) of Inl e \<Rightarrow> Inl e
      | Inr args' \<Rightarrow> Inr (MethodCallExpression dispatch rtype op_name args'))"
| "this_desugaring s (ColumnCallExpression col_expr args) =
     (case this_desugaring s col_expr of Inl e \<Rightarrow> Inl e
      | Inr col_expr' \<Rightarrow>
          (case collect (map (this_desugaring s) args) of Inl e \<Rightarrow> Inl e
           | Inr args' \<Rightarrow> Inr (ColumnCallExpression col_expr' args')))"
| "this_desugaring s (PointerExpression tbl args optional) =
     (case collect (map (this_desugaring s) args) of Inl e \<Rightarrow> Inl e
      | Inr args' \<Rightarrow>
          (case desugar_table s tbl of Inl e \<Rightarrow> Inl e
           | Inr desugared_table \<Rightarrow>
               (case as_relation desugared_table of Inl e \<Rightarrow> Inl e
                | Inr t \<Rightarrow> Inr (PointerExpression t args' optional))))"

text \<open>The scope tokens of the placeholders an expression holds as owners.\<close>

fun owner_tokens :: "owner \<Rightarrow> nat list" where
  "owner_tokens (This k) = [k]"
| "owner_tokens (Table n) = []"

fun placeholders :: "expr \<Rightarrow> nat list" where
  "placeholders (ColumnReference tbl name) = owner_tokens tbl"
| "placeholders (ColumnConstExpression v) = []"
| "placeholders (ColumnIxExpression tbl name keys optional) =
     owner_tokens tbl @ placeholders keys"
| "placeholders (RequireExpression val args) =
     placeholders val @ concat (map placeholders args)"
| "placeholders (ReducerExpression reducer args) = concat (map placeholders args)"
| "placeholders (MethodCallExpression dispatch rtype op_name args) =
     concat (map placeholders args)"
| "placeholders (ColumnCallExpression col_expr args) =
     placeholders col_expr @ concat (map placeholders args)"
| "placeholders (PointerExpression tbl args optional) =
     owner_tokens tbl @ concat (map placeholders args)"

text \<open>Every scope token the substitution binds is bound to a relation.\<close>

definition relations_only :: "substitution \<Rightarrow> bool" where
  "relations_only s = (\<forall>k v. s k = Some v \<longrightarrow> (\<exists>n. v = Context n))"

section \<open>Inline calls: TableCallbackDesugaring and its two flavours\<close>

text \<open>The decimal digits of \<^verbatim>\<open>index\<close> in the f-string \<^verbatim>\<open>f"arg_{index}"\<close> (line 143).\<close>

definition digit_char :: "nat \<Rightarrow> char" where
  "digit_char d = ''0123456789'' ! d"

fun string_of_nat :: "nat \<Rightarrow> string" where
  "string_of_nat n =
     (if n < 10 then [digit_char n] else string_of_nat (n div 10) @ [digit_char (n mod 10)])"

definition arg_name :: "nat \<Rightarrow> string" where
  "arg_name index = ''arg_'' @ string_of_nat index"

text \<open>
  The collaborators of \<^verbatim>\<open>eval_call\<close> and \<^verbatim>\<open>eval_reducer\<close> that are not among the sources,
  as parameters. Relations, grouped relations, generated operators and dtypes are opaque
  identities; each collaborator returns its result or raises (an opaque code).
  \<^item> \<^verbatim>\<open>eval_type\<close>: \<^verbatim>\<open>type_interpreter.eval_type(expression)\<close>;
  \<^item> \<^verbatim>\<open>method_call_transformer\<close>: \<^verbatim>\<open>RowTransformer.method_call_transformer(n, dtype=d)\<close>;
  \<^item> \<^verbatim>\<open>transformer_table\<close>: \<^verbatim>\<open>transformer(table=input).table\<close>;
  \<^item> \<^verbatim>\<open>table_select\<close>: \<^verbatim>\<open>table_like.select(**kwargs)\<close> of a joinable;
  \<^item> \<^verbatim>\<open>grouped_reduce\<close>: \<^verbatim>\<open>table_like.reduce(**kwargs)\<close> of a grouped relation;
  \<^item> \<^verbatim>\<open>joinable_to_group\<close>: \<^verbatim>\<open>table_like._joinable_to_group\<close> of a grouped relation.
\<close>

record collaborators =
  eval_type :: "expr \<Rightarrow> nat + nat"
  method_call_transformer :: "nat \<Rightarrow> nat \<Rightarrow> nat + nat"
  transformer_table :: "nat \<Rightarrow> nat \<Rightarrow> nat + nat"
  table_select :: "nat \<Rightarrow> (string \<times> expr) list \<Rightarrow> nat + nat"
  grouped_reduce :: "nat \<Rightarrow> (string \<times> expr) list \<Rightarrow> nat + nat"
  joinable_to_group :: "nat \<Rightarrow> nat"

text \<open>
  The two concrete subclasses of \<^verbatim>\<open>TableCallbackDesugaring\<close>, each with its
  \<^verbatim>\<open>table_like\<close>: a joinable (lines 158 to 168) or a grouped relation (lines 171 to 188).
\<close>

datatype desugaring = TableSelectDesugaring nat | TableReduceDesugaring nat

text \<open>\<^verbatim>\<open>callback\<close>, lines 167 and 168, and lines 180 and 181.\<close>

fun callback :: "collaborators \<Rightarrow> desugaring \<Rightarrow> (string \<times> expr) list \<Rightarrow> error + nat" where
  "callback c (TableSelectDesugaring table_like) kwargs =
     external (table_select c table_like kwargs)"
| "callback c (TableReduceDesugaring table_like) kwargs =
     external (grouped_reduce c table_like kwargs)"

text \<open>
  The body of \<^verbatim>\<open>eval_call\<close> after the arguments have been rewritten, lines 142 to 155:
  the dictionary of the named arguments, the row transformer for their number and the
  inferred type of the call, the input relation from the callback, the operator applied
  to it, and the column \<^verbatim>\<open>result\<close> of its output relation. Modelled from the spec:
  \<^verbatim>\<open>table.result\<close> is the column reference of that name owned by the output relation.
\<close>

definition call_operator ::
  "collaborators \<Rightarrow> desugaring \<Rightarrow> expr \<Rightarrow> expr \<Rightarrow> expr list \<Rightarrow> error + expr" where
  "call_operator c d expression col_expr args' =
     (let args = py_dict (zip (map arg_name [0..<length args']) args') in
      case external (eval_type c expression) of Inl e \<Rightarrow> Inl e
      | Inr dtype \<Rightarrow>
     (case external (method_call_transformer c (length args) dtype) of Inl e \<Rightarrow> Inl e
      | Inr transformer \<Rightarrow>
     (case callback c d ((''method'', col_expr) # args) of Inl e \<Rightarrow> Inl e
      | Inr method_call_input \<Rightarrow>
     (case external (transformer_table c transformer method_call_input) of Inl e \<Rightarrow> Inl e
      | Inr tbl \<Rightarrow> Inr (ColumnReference (Table tbl) ''result'')))))"

text \<open>
  \<^verbatim>\<open>eval_expression\<close> of a \<^verbatim>\<open>TableSelectDesugaring\<close> or a \<^verbatim>\<open>TableReduceDesugaring\<close>.
  \<^verbatim>\<open>eval_call\<close> (lines 141 to 155) belongs to both; \<^verbatim>\<open>eval_reducer\<close> (lines 183 to 188)
  to the second only, and rewrites the arguments with a \<^verbatim>\<open>TableSelectDesugaring\<close> of the
  relation that is grouped. Modelled from the spec (section 4.1): every other node kind,
  and a reducer under \<^verbatim>\<open>TableSelectDesugaring\<close>, has the inherited handler of
  \<^verbatim>\<open>IdentityTransform\<close>.
\<close>

fun table_callback_desugaring :: "collaborators \<Rightarrow> desugaring \<Rightarrow> expr \<Rightarrow> error + expr" where
  "table_callback_desugaring c d (ColumnReference tbl name) =
     (case identity_eval_column_val tbl name of (t, n) \<Rightarrow> Inr (ColumnReference t n))"
| "table_callback_desugaring c d (ColumnConstExpression v) = Inr (ColumnConstExpression v)"
| "table_callback_desugaring c d (ColumnIxExpression tbl name keys optional) =
     (case identity_eval_column_val tbl name of (t, n) \<Rightarrow>
        (case table_callback_desugaring c d keys of Inl e \<Rightarrow> Inl e
         | Inr keys' \<Rightarrow> Inr (ColumnIxExpression t n keys' optional)))"
| "table_callback_desugaring c d (RequireExpression val args) =
     (case table_callback_desugaring c d val of Inl e \<Rightarrow> Inl e
      | Inr val' \<Rightarrow>
          (case collect (map (table_callback_desugaring c d) args) of Inl e \<Rightarrow> Inl e
           | Inr args' \<Rightarrow> Inr (RequireExpression val' args')))"
| "table_callback_desugaring c d (ReducerExpression reducer args) =
     (case d of
        TableReduceDesugaring table_like \<Rightarrow>
          (case collect (map (table_callback_desugaring c
                  (TableSelectDesugaring (joinable_to_group c table_like))) args) of
             Inl e \<Rightarrow> Inl e
           | Inr args' \<Rightarrow> Inr (ReducerExpression reducer args'))
      | TableSelectDesugaring table_like \<Rightarrow>
          (case collect (map (table_callback_desugaring c d) args) of Inl e \<Rightarrow> Inl e
           | Inr args' \<Rightarrow> Inr (ReducerExpression reducer args')))"
| "table_callback_desugaring c d (MethodCallExpression dispatch rtype op_name args) =
     (case collect (map (table_callback_desugaring c d) args) of Inl e \<Rightarrow> Inl e
      | Inr args' \<Rightarrow> Inr (MethodCallExpression dispatch rtype op_name args'))"
| "table_callback_desugaring c d (ColumnCallExpression col_expr args) =
     (case collect (map (table_callback_desugaring c d) args) of Inl e \<Rightarrow> Inl e
      | Inr args' \<Rightarrow> call_operator c d (ColumnCallExpression col_expr args) col_expr args')"
| "table_callback_desugaring c d (PointerExpression tbl args optional) =
     (case collect (map (table_callback_desugaring c d) args) of Inl e \<Rightarrow> Inl e
      | Inr args' \<Rightarrow> Inr (PointerExpression tbl args' optional))"

section \<open>Argument normalisation: combine_args_kwargs\<close>

text \<open>
  A value handed to \<^verbatim>\<open>combine_args_kwargs\<close>, by the two \<^verbatim>\<open>isinstance\<close> tests of \<^verbatim>\<open>add\<close>
  (lines 249 and 254): a \<^verbatim>\<open>table.Table\<close>, a column expression, or anything else.
\<close>

datatype argument = TableArg nat | ExpressionArg expr | OtherArg pyobject

text \<open>
  \<^verbatim>\<open>add\<close>, lines 246 to 256, on the dictionary \<^verbatim>\<open>all_args\<close>. The name is the result of
  \<^verbatim>\<open>expr.smart_name\<close> or a keyword, so it is a string or None.
\<close>

fun is_table :: "argument \<Rightarrow> bool" where
  "is_table (TableArg t) = True"
| "is_table _ = False"

definition add ::
  "(string option \<times> expr) list \<Rightarrow> string option \<Rightarrow> argument \<Rightarrow> error + (string option \<times> expr) list" where
  "add all_args name expression =
     (if is_table expression then Inl (AssertionError ExpressionIsTable)
      else if name \<in> set (map fst all_args) then Inl (DuplicateName name)
      else if name = Some ''id'' then Inl ReservedName
      else (case expression of
              ExpressionArg e \<Rightarrow> Inr (dict_set all_args name e)
            | OtherArg v \<Rightarrow> Inr (dict_set all_args name (ColumnConstExpression v))
            | TableArg t \<Rightarrow> Inl (AssertionError ExpressionIsTable)))"

text \<open>One of the two loops of lines 258 to 261, over the names and the values in order.\<close>

fun add_each ::
  "(string option \<times> expr) list \<Rightarrow> (string option \<times> argument) list \<Rightarrow> error + (string option \<times> expr) list" where
  "add_each all_args [] = Inr all_args"
| "add_each all_args ((name, expression) # rest) =
     (case add all_args name expression of Inl e \<Rightarrow> Inl e
      | Inr all_args' \<Rightarrow> add_each all_args' rest)"

text \<open>
  \<^verbatim>\<open>combine_args_kwargs\<close>, lines 240 to 263. \<^verbatim>\<open>expr.smart_name\<close> is not among the sources
  and is a parameter.
\<close>

definition combine_args_kwargs ::
  "(argument \<Rightarrow> string option) \<Rightarrow> argument list \<Rightarrow> (string \<times> argument) list \<Rightarrow> error + (string option \<times> expr) list" where
  "combine_args_kwargs smart_name args kwargs =
     (case add_each [] (map (\<lambda>expression. (smart_name expression, expression)) args) of
        Inl e \<Rightarrow> Inl e
      | Inr all_args \<Rightarrow>
          add_each all_args (map (\<lambda>(name, expression). (Some name, expression)) kwargs))"

text \<open>The names and the values in the order the two loops add them.\<close>

definition entries ::
  "(argument \<Rightarrow> string option) \<Rightarrow> argument list \<Rightarrow> (string \<times> argument) list \<Rightarrow> (string option \<times> argument) list" where
  "entries smart_name args kwargs =
     map (\<lambda>expression. (smart_name expression, expression)) args
       @ map (\<lambda>(name, expression). (Some name, expression)) kwargs"

text \<open>The names the arguments are added under, and the expressions they are stored as.\<close>

definition effective_names ::
  "(argument \<Rightarrow> string option) \<Rightarrow> argument list \<Rightarrow> (string \<times> argument) list \<Rightarrow> string option list" where
  "effective_names smart_name args kwargs = map smart_name args @ map (\<lambda>(name, v). Some name) kwargs"

text \<open>What a value is stored as: itself, or the constant that wraps it (lines 254, 255).\<close>

fun stored :: "argument \<Rightarrow> expr option" where
  "stored (ExpressionArg e) = Some e"
| "stored (OtherArg v) = Some (ColumnConstExpression v)"
| "stored (TableArg t) = None"

text \<open>
  An instance of the parameter \<^verbatim>\<open>smart_name\<close> for the examples: the name of a column
  reference and None for anything else (section 4.5 of the specification: positional
  expressions are named from the referenced column's own name).
\<close>

definition column_name :: "argument \<Rightarrow> string option" where
  "column_name a = (case a of ExpressionArg (ColumnReference t name) \<Rightarrow> Some name | _ \<Rightarrow> None)"

section \<open>Call interception: the wrapper of desugar\<close>

text \<open>
  What the wrapper reads that is not among the sources, as parameters:
  \<^item> \<^verbatim>\<open>arg_names\<close>: \<^verbatim>\<open>function_spec(func).arg_names\<close>;
  \<^item> \<^verbatim>\<open>substitution_param\<close>: the items of \<^verbatim>\<open>kwargs.get("substitution", {})\<close> of the
    decorator, a scope token and the value that names an argument;
  \<^item> \<^verbatim>\<open>ctx_substitution\<close>: the items of \<^verbatim>\<open>_substitution\<close> of a \<^verbatim>\<open>DesugaringContext\<close>;
  \<^item> \<^verbatim>\<open>ctx_desugaring\<close>: \<^verbatim>\<open>_desugaring.eval_expression\<close> of a \<^verbatim>\<open>DesugaringContext\<close>, on a
    column expression;
  \<^item> \<^verbatim>\<open>key_guard\<close>: the constant \<^verbatim>\<open>thisclass.KEY_GUARD\<close>;
  \<^item> \<^verbatim>\<open>is_iter_guard\<close>: \<^verbatim>\<open>issubclass(arg, thisclass.iter_guard)\<close> of a placeholder class;
  \<^item> \<^verbatim>\<open>iter_substitution\<close>: the elements of \<^verbatim>\<open>arg._eval_substitution(substitution)\<close> of
    such a class, as \<^verbatim>\<open>ret.extend\<close> reads them;
  \<^item> \<^verbatim>\<open>items_substitution\<close>: the items of \<^verbatim>\<open>arg._eval_substitution(substitution)\<close> of a
    placeholder under a guarded keyword, as \<^verbatim>\<open>new_kwargs.update\<close> reads them;
  \<^item> \<^verbatim>\<open>func\<close>: the wrapped operation.
\<close>

record 'r interception =
  arg_names :: "string list"
  substitution_param :: "(nat \<times> pyval) list"
  ctx_substitution :: "nat \<Rightarrow> (nat \<times> pyval) list"
  ctx_desugaring :: "nat \<Rightarrow> expr \<Rightarrow> nat + expr"
  key_guard :: string
  is_iter_guard :: "nat \<Rightarrow> bool"
  iter_substitution :: "substitution \<Rightarrow> nat \<Rightarrow> nat + pyval list"
  items_substitution :: "substitution \<Rightarrow> nat \<Rightarrow> nat + (string \<times> pyval) list"
  func :: "pyval list \<Rightarrow> (string \<times> pyval) list \<Rightarrow> nat + 'r"

text \<open>
  \<^verbatim>\<open>_desugar_this_arg\<close>, lines 194 to 198. Modelled from the spec: \<^verbatim>\<open>eval_expression\<close> of
  a value that is not a column expression goes to \<^verbatim>\<open>eval_any\<close>, which for a
  \<^verbatim>\<open>DesugaringTransform\<close> returns the value (lines 29 and 30).
\<close>

definition desugar_this_arg :: "substitution \<Rightarrow> pyval \<Rightarrow> error + pyval" where
  "desugar_this_arg s expression =
     (case expression of
        Expression e \<Rightarrow>
          (case this_desugaring s e of Inl err \<Rightarrow> Inl err | Inr e' \<Rightarrow> Inr (Expression e'))
      | _ \<Rightarrow> Inr expression)"

text \<open>\<^verbatim>\<open>_desugar_this_args\<close>, lines 201 to 216.\<close>

fun desugar_this_args :: "'r interception \<Rightarrow> substitution \<Rightarrow> pyval list \<Rightarrow> error + pyval list" where
  "desugar_this_args ic s [] = Inr []"
| "desugar_this_args ic s (arg # rest) =
     (case (case arg of
              Placeholder k \<Rightarrow>
                if is_iter_guard ic k then external (iter_substitution ic s k)
                else Inl (AssertionError NotIterGuard)
            | _ \<Rightarrow> (case desugar_this_arg s arg of Inl e \<Rightarrow> Inl e | Inr a \<Rightarrow> Inr [a])) of
        Inl e \<Rightarrow> Inl e
      | Inr added \<Rightarrow>
          (case desugar_this_args ic s rest of Inl e \<Rightarrow> Inl e
           | Inr ret \<Rightarrow> Inr (added @ ret)))"

text \<open>\<^verbatim>\<open>name.startswith(prefix)\<close>.\<close>

definition startswith :: "string \<Rightarrow> string \<Rightarrow> bool" where
  "startswith name prefix = (take (length prefix) name = prefix)"

text \<open>The loop of lines 230 to 234 over the items of \<^verbatim>\<open>kwargs\<close>, on \<^verbatim>\<open>new_kwargs\<close>.\<close>

fun expand_guarded ::
  "'r interception \<Rightarrow> substitution \<Rightarrow> (string \<times> pyval) list \<Rightarrow> (string \<times> pyval) list \<Rightarrow> error + (string \<times> pyval) list" where
  "expand_guarded ic s [] new_kwargs = Inr new_kwargs"
| "expand_guarded ic s ((name, arg) # rest) new_kwargs =
     (if startswith name (key_guard ic) then
        (case arg of
           Placeholder k \<Rightarrow>
             (case external (items_substitution ic s k) of Inl e \<Rightarrow> Inl e
              | Inr evaled_table \<Rightarrow>
                  expand_guarded ic s rest (dict_update new_kwargs evaled_table))
         | _ \<Rightarrow> Inl (AssertionError KeyGuardNotThis))
      else expand_guarded ic s rest new_kwargs)"

text \<open>A dictionary comprehension \<^verbatim>\<open>{name: f(arg) for name, arg in d.items()}\<close>.\<close>

definition map_values ::
  "(pyval \<Rightarrow> error + pyval) \<Rightarrow> (string \<times> pyval) list \<Rightarrow> error + (string \<times> pyval) list" where
  "map_values f d =
     (case collect (map (\<lambda>(name, arg). f arg) d) of Inl e \<Rightarrow> Inl e
      | Inr vs \<Rightarrow> Inr (py_dict (zip (map fst d) vs)))"

text \<open>\<^verbatim>\<open>_desugar_this_kwargs\<close>, lines 219 to 237.\<close>

definition desugar_this_kwargs ::
  "'r interception \<Rightarrow> substitution \<Rightarrow> (string \<times> pyval) list \<Rightarrow> error + (string \<times> pyval) list" where
  "desugar_this_kwargs ic s kwargs =
     (case expand_guarded ic s kwargs
             (py_dict (filter (\<lambda>(name, arg). \<not> startswith name (key_guard ic)) kwargs)) of
        Inl e \<Rightarrow> Inl e
      | Inr new_kwargs \<Rightarrow> map_values (desugar_this_arg s) new_kwargs)"

text \<open>Line 282: the positional arguments under the declared names, then the keywords.\<close>

definition named_args_of ::
  "string list \<Rightarrow> pyval list \<Rightarrow> (string \<times> pyval) list \<Rightarrow> (string \<times> pyval) list" where
  "named_args_of names args kwargs = dict_update (py_dict (zip names args)) kwargs"

text \<open>Lines 285 to 287: the first bound argument, if it is a \<^verbatim>\<open>DesugaringContext\<close>.\<close>

definition context_of :: "pyval \<Rightarrow> nat option" where
  "context_of first_arg = (case first_arg of Context n \<Rightarrow> Some n | _ \<Rightarrow> None)"

text \<open>\<^verbatim>\<open>this_substitution.update(items)\<close>, line 291.\<close>

fun update_all :: "substitution \<Rightarrow> (nat \<times> pyval) list \<Rightarrow> substitution" where
  "update_all s [] = s"
| "update_all s ((k, v) # items) = update_all (s(k \<mapsto> v)) items"

text \<open>The loop of lines 293 to 295 over the declared scope bindings.\<close>

fun bind_scopes ::
  "(string \<times> pyval) list \<Rightarrow> (nat \<times> pyval) list \<Rightarrow> substitution \<Rightarrow> error + substitution" where
  "bind_scopes named_args [] s = Inr s"
| "bind_scopes named_args ((key, v) # rest) s =
     (case v of
        Object (PyStr name) \<Rightarrow>
          (case map_of named_args name of None \<Rightarrow> Inl (KeyError name)
           | Some a \<Rightarrow> bind_scopes named_args rest (s(key \<mapsto> a)))
      | _ \<Rightarrow> Inl (AssertionError BindingNotStr))"

text \<open>Lines 289 to 295: the substitution of this call.\<close>

definition this_substitution ::
  "'r interception \<Rightarrow> (string \<times> pyval) list \<Rightarrow> nat option \<Rightarrow> error + substitution" where
  "this_substitution ic named_args desugaring_context =
     bind_scopes named_args (substitution_param ic)
       (case desugaring_context of None \<Rightarrow> Map.empty
        | Some n \<Rightarrow> update_all Map.empty (ctx_substitution ic n))"

text \<open>
  \<^verbatim>\<open>desugaring_context._desugaring.eval_expression(arg)\<close>, lines 302 and 305; a value that
  is not a column expression goes to \<^verbatim>\<open>eval_any\<close> (lines 29 and 30).
\<close>

definition context_eval :: "'r interception \<Rightarrow> nat \<Rightarrow> pyval \<Rightarrow> error + pyval" where
  "context_eval ic n arg =
     (case arg of
        Expression e \<Rightarrow>
          (case external (ctx_desugaring ic n e) of Inl err \<Rightarrow> Inl err
           | Inr e' \<Rightarrow> Inr (Expression e'))
      | _ \<Rightarrow> Inr arg)"

text \<open>\<^verbatim>\<open>wrapper\<close>, lines 281 to 308.\<close>

definition wrapper :: "'r interception \<Rightarrow> pyval list \<Rightarrow> (string \<times> pyval) list \<Rightarrow> error + 'r" where
  "wrapper ic args kwargs =
     (case named_args_of (arg_names ic) args kwargs of
        [] \<Rightarrow> Inl (AssertionError NamedArgsEmpty)
      | (first_name, first_arg) # others \<Rightarrow>
     (let named_args = (first_name, first_arg) # others;
          desugaring_context = context_of first_arg in
      case this_substitution ic named_args desugaring_context of Inl e \<Rightarrow> Inl e
      | Inr s \<Rightarrow>
     (case desugar_this_args ic s args of Inl e \<Rightarrow> Inl e
      | Inr args1 \<Rightarrow>
     (case desugar_this_kwargs ic s kwargs of Inl e \<Rightarrow> Inl e
      | Inr kwargs1 \<Rightarrow>
     (case desugaring_context of
        None \<Rightarrow> external (func ic args1 kwargs1)
      | Some n \<Rightarrow>
     (case collect (map (context_eval ic n) args1) of Inl e \<Rightarrow> Inl e
      | Inr args2 \<Rightarrow>
     (case map_values (context_eval ic n) kwargs1 of Inl e \<Rightarrow> Inl e
      | Inr kwargs2 \<Rightarrow> external (func ic args2 kwargs2))))))))"

text \<open>
  Lines 297 to 308 on their own: the arguments resolved against the substitution of the
  call, rewritten by the context when there is one, and forwarded to the operation.
\<close>

definition rewrite_and_call ::
  "'r interception \<Rightarrow> nat option \<Rightarrow> substitution \<Rightarrow> pyval list \<Rightarrow> (string \<times> pyval) list \<Rightarrow> error + 'r" where
  "rewrite_and_call ic desugaring_context s args kwargs =
     (case desugar_this_args ic s args of Inl e \<Rightarrow> Inl e
      | Inr args1 \<Rightarrow>
     (case desugar_this_kwargs ic s kwargs of Inl e \<Rightarrow> Inl e
      | Inr kwargs1 \<Rightarrow>
     (case desugaring_context of
        None \<Rightarrow> external (func ic args1 kwargs1)
      | Some n \<Rightarrow>
     (case collect (map (context_eval ic n) args1) of Inl e \<Rightarrow> Inl e
      | Inr args2 \<Rightarrow>
     (case map_values (context_eval ic n) kwargs1 of Inl e \<Rightarrow> Inl e
      | Inr kwargs2 \<Rightarrow> external (func ic args2 kwargs2))))))"

text \<open>
  An interception for the examples: an operation with the parameters \<^verbatim>\<open>self\<close>, \<^verbatim>\<open>other\<close>
  and \<^verbatim>\<open>expression\<close> that returns its positional arguments, decorated with the scope
  binding of token 1 to the argument \<^verbatim>\<open>other\<close>; every context maps token 0 to itself and
  its own rewriter changes nothing.
\<close>

definition example_interception :: "pyval list interception" where
  "example_interception = \<lparr>arg_names = [''self'', ''other'', ''expression''],
      substitution_param = [(1, Object (PyStr ''other''))],
      ctx_substitution = (\<lambda>n. [(0, Context n)]),
      ctx_desugaring = (\<lambda>n e. Inr e),
      key_guard = ''_pathway_this_guard'',
      is_iter_guard = (\<lambda>k. False),
      iter_substitution = (\<lambda>s k. Inr []),
      items_substitution = (\<lambda>s k. Inr []),
      func = (\<lambda>args kwargs. Inr args)\<rparr>"

section \<open>Properties of null-flooding\<close>

subsection \<open>The rewriter, node by node\<close>

lemma replace_column_val:
  "table_replacement_with_none tbl (ColumnReference t name) =
     (if t = tbl then ColumnConstExpression PyNone else ColumnReference t name)"
  by (simp add: table_replacement_with_none_def identity_eval_column_val_def)

lemma replace_const:
  "table_replacement_with_none tbl (ColumnConstExpression v) = ColumnConstExpression v"
  by (simp add: table_replacement_with_none_def)

lemma replace_ix:
  "table_replacement_with_none tbl (ColumnIxExpression t name keys optional) =
     ColumnIxExpression t name (table_replacement_with_none tbl keys) optional"
  by (simp add: table_replacement_with_none_def identity_eval_column_val_def Let_def)

lemma replace_require:
  "table_replacement_with_none tbl (RequireExpression val args) =
     (if list_ex is_none_const (map (table_replacement_with_none tbl) args)
      then ColumnConstExpression PyNone
      else RequireExpression (table_replacement_with_none tbl val)
             (map (table_replacement_with_none tbl) args))"
  by (simp add: table_replacement_with_none_def Let_def comp_def)

lemma replace_reducer:
  "table_replacement_with_none tbl (ReducerExpression reducer args) =
     ReducerExpression reducer (map (table_replacement_with_none tbl) args)"
  by (simp add: table_replacement_with_none_def Let_def comp_def)

lemma replace_method_call:
  "table_replacement_with_none tbl (MethodCallExpression dispatch rtype op_name args) =
     MethodCallExpression dispatch rtype op_name (map (table_replacement_with_none tbl) args)"
  by (simp add: table_replacement_with_none_def Let_def comp_def)

lemma replace_call:
  "table_replacement_with_none tbl (ColumnCallExpression col_expr args) =
     ColumnCallExpression (table_replacement_with_none tbl col_expr)
       (map (table_replacement_with_none tbl) args)"
  by (simp add: table_replacement_with_none_def Let_def comp_def)

lemma replace_pointer:
  "table_replacement_with_none tbl (PointerExpression t args optional) =
     PointerExpression t (map (table_replacement_with_none tbl) args) optional"
  by (simp add: table_replacement_with_none_def Let_def comp_def)

lemmas replace_simps =
  replace_column_val replace_const replace_ix replace_require replace_reducer
  replace_method_call replace_call replace_pointer

lemma visited_require:
  "replacement_visited tbl (RequireExpression val args) =
     RequireExpression val args # replacement_visited tbl val
       @ concat (map (replacement_visited tbl) args)"
  by (simp add: replacement_visited_def Let_def comp_def)

lemma visited_self: "e \<in> set (replacement_visited tbl e)"
  by (cases e) (simp_all add: replacement_visited_def Let_def)

lemma is_none_const_iff: "is_none_const x \<longleftrightarrow> x = ColumnConstExpression PyNone"
  by (cases x) auto

lemma none_guard_iff:
  "list_ex is_none_const (map (table_replacement_with_none tbl) args) \<longleftrightarrow>
     (\<exists>g \<in> set args. table_replacement_with_none tbl g = ColumnConstExpression PyNone)"
  by (induction args) (auto simp: is_none_const_iff)

lemma replace_no_reference:
  "tbl \<notin> set (reference_owners (table_replacement_with_none tbl e))"
proof (induction e)
  case (RequireExpression val args)
  then show ?case by (auto simp: replace_require list_ex_iff)
qed (auto simp: replace_simps)

subsection \<open>Guards\<close>

text \<open>
  C1. Null-flooding a relation over \<^verbatim>\<open>RequireExpression(value, g1..gn)\<close> rewrites the value
  and every guard. If any rewritten guard is the constant None, the whole expression is
  the constant None, whatever the value and the other guards are; otherwise it is the
  require expression of the rewritten value and the rewritten guards. In both cases the
  traversal has called \<^verbatim>\<open>eval_expression\<close> on the node, then on the value and all it
  reaches, then on every guard in order and all it reaches: no guard is skipped.
\<close>

theorem require_null_propagation:
  "table_replacement_with_none tbl (RequireExpression val args) =
     (if \<exists>g \<in> set args. table_replacement_with_none tbl g = ColumnConstExpression PyNone
      then ColumnConstExpression PyNone
      else RequireExpression (table_replacement_with_none tbl val)
             (map (table_replacement_with_none tbl) args))
   \<and> replacement_visited tbl (RequireExpression val args) =
       RequireExpression val args # replacement_visited tbl val
         @ concat (map (replacement_visited tbl) args)"
  by (simp only: replace_require none_guard_iff visited_require)

subsection \<open>Indexed lookups\<close>

lemma replace_as_specified:
  "table_replacement_with_none tbl e = requires_collapsed (references_nulled tbl e)"
proof (induction e)
  case (RequireExpression val args)
  then have "map (table_replacement_with_none tbl) args
      = map requires_collapsed (map (references_nulled tbl) args)"
    by simp
  with RequireExpression show ?case
    by (simp only: replace_require references_nulled.simps requires_collapsed.simps)
qed (simp_all add: replace_simps)

text \<open>
  C5, as the code has it. Null-flooding a relation over an indexed lookup floods the keys
  recursively: the rewritten keys are the keys with every column reference owned by that
  relation, in any position the traversal reaches, replaced by the constant None (and
  the require expressions that get such a guard collapsed); in particular a key that is
  a column of the relation becomes the constant None, and no column reference owned by
  the relation is left in those positions. The base is handed to the inherited handler
  of column references and stays the column reference it was, also when the flooded
  relation owns it. The rebuilt node keeps the optional flag.
\<close>

theorem ix_floods_keys_keeps_base:
  "table_replacement_with_none tbl (ColumnIxExpression t name keys optional) =
     ColumnIxExpression t name (table_replacement_with_none tbl keys) optional
   \<and> table_replacement_with_none tbl keys = requires_collapsed (references_nulled tbl keys)
   \<and> table_replacement_with_none tbl
         (ColumnIxExpression t name (ColumnReference tbl k) optional) =
       ColumnIxExpression t name (ColumnConstExpression PyNone) optional
   \<and> tbl \<notin> set (reference_owners (table_replacement_with_none tbl keys))"
  by (simp add: replace_ix replace_column_val replace_no_reference
      replace_as_specified [symmetric])

text \<open>
  C5 as stated fails: the base of the lookup is a column of the flooded relation
  \<^verbatim>\<open>Table 0\<close> and is still that column afterwards, while the reference to the same
  relation in the keys has become the constant None.
\<close>

theorem ix_base_not_flooded:
  "table_replacement_with_none (Table 0)
     (ColumnIxExpression (Table 0) ''x'' (ColumnReference (Table 0) ''k'') True)
   = ColumnIxExpression (Table 0) ''x'' (ColumnConstExpression PyNone) True"
  by (simp add: replace_ix replace_column_val)

subsection \<open>Disjointness\<close>

text \<open>
  C8, as the code has it. An expression that holds no column reference owned by the
  relation (neither in a position the traversal reaches nor as the base of an indexed
  lookup), and in which no require expression has a guard that is the constant None, is
  returned unchanged by null-flooding that relation.
\<close>

theorem replace_unchanged:
  assumes "tbl \<notin> set (reference_owners e) \<union> set (ix_base_owners e)"
    and "no_none_guard e"
  shows "table_replacement_with_none tbl e = e"
  using assms
proof (induction e)
  case (RequireExpression val args)
  then have same: "map (table_replacement_with_none tbl) args = args"
    by (auto simp: list_all_iff intro!: map_idI)
  from RequireExpression show ?case
    unfolding replace_require same by simp
qed (auto simp: replace_simps list_all_iff intro!: map_idI)

theorem replace_unchanged_witness:
  "Table 0 \<notin> set (reference_owners (RequireExpression (ColumnReference (Table 1) ''x'')
        [ColumnIxExpression (Table 2) ''y'' (ColumnConstExpression PyNone) False]))
      \<union> set (ix_base_owners (RequireExpression (ColumnReference (Table 1) ''x'')
        [ColumnIxExpression (Table 2) ''y'' (ColumnConstExpression PyNone) False]))
   \<and> no_none_guard (RequireExpression (ColumnReference (Table 1) ''x'')
        [ColumnIxExpression (Table 2) ''y'' (ColumnConstExpression PyNone) False])
   \<and> table_replacement_with_none (Table 0)
        (RequireExpression (ColumnReference (Table 1) ''x'')
          [ColumnIxExpression (Table 2) ''y'' (ColumnConstExpression PyNone) False])
      = RequireExpression (ColumnReference (Table 1) ''x'')
          [ColumnIxExpression (Table 2) ''y'' (ColumnConstExpression PyNone) False]"
  using replace_unchanged [of "Table 0" "RequireExpression (ColumnReference (Table 1) ''x'')
          [ColumnIxExpression (Table 2) ''y'' (ColumnConstExpression PyNone) False]"]
  by simp

text \<open>
  C8 as stated fails: the expression refers to \<^verbatim>\<open>Table 1\<close> only, and null-flooding
  \<^verbatim>\<open>Table 0\<close> turns it into the constant None, because one of its guards is that constant
  already.
\<close>

theorem replace_changes_none_guard:
  "reference_owners (RequireExpression (ColumnReference (Table 1) ''x'') [ColumnConstExpression PyNone])
     = [Table 1]
   \<and> ix_base_owners (RequireExpression (ColumnReference (Table 1) ''x'') [ColumnConstExpression PyNone])
     = []
   \<and> table_replacement_with_none (Table 0)
       (RequireExpression (ColumnReference (Table 1) ''x'') [ColumnConstExpression PyNone])
     = ColumnConstExpression PyNone"
  by (simp add: replace_require replace_const)

section \<open>Properties of self-reference resolution\<close>

subsection \<open>Comprehensions that may raise\<close>

lemma collect_Inr_iff:
  "collect (map f xs) = Inr ys \<longleftrightarrow> list_all2 (\<lambda>x y. f x = Inr y) xs ys"
proof (induction xs arbitrary: ys)
  case Nil
  then show ?case by auto
next
  case (Cons x xs)
  show ?case
  proof (cases "f x")
    case (Inl e)
    then show ?thesis by (auto simp: list_all2_Cons1)
  next
    case (Inr y)
    then show ?thesis
      by (auto simp: list_all2_Cons1 Cons.IH[symmetric] split: sum.splits)
  qed
qed

lemma collect_map_same:
  "(\<And>x. x \<in> set xs \<Longrightarrow> f x = Inr x) \<Longrightarrow> collect (map f xs) = Inr xs"
  by (induction xs) auto

subsection \<open>Resolved expressions\<close>

lemma owner_tokens_Nil: "owner_tokens tbl = [] \<Longrightarrow> this_eval_column_val s tbl name = Inr (tbl, name)"
  by (cases tbl) (auto simp: this_eval_column_val_def desugar_table_def as_relation_def)

lemma owner_tokens_Nil_table:
  "owner_tokens tbl = [] \<Longrightarrow> \<exists>n. tbl = Table n"
  by (cases tbl) auto

lemma no_placeholder_unchanged: "placeholders e = [] \<Longrightarrow> this_desugaring s e = Inr e"
proof (induction e)
  case (PointerExpression tbl args optional)
  then have "collect (map (this_desugaring s) args) = Inr args"
    by (intro collect_map_same) auto
  moreover from PointerExpression obtain n where "tbl = Table n"
    using owner_tokens_Nil_table by auto
  ultimately show ?case by (simp add: desugar_table_def as_relation_def)
qed (auto simp: owner_tokens_Nil collect_map_same)

lemma eval_col_placeholder_free:
  assumes "relations_only s" and "this_eval_column_val s tbl name = Inr (t, n)"
  shows "owner_tokens t = []"
proof (cases tbl)
  case (Table m)
  with assms(2) show ?thesis
    by (auto simp: this_eval_column_val_def desugar_table_def as_relation_def)
next
  case (This k)
  show ?thesis
  proof (cases "s k")
    case None
    with This assms(2) show ?thesis
      by (simp add: this_eval_column_val_def desugar_table_def eval_substitution_def)
  next
    case (Some v)
    with assms(1) obtain m where "v = Context m"
      unfolding relations_only_def by blast
    with Some This assms(2) show ?thesis
      by (auto simp: this_eval_column_val_def desugar_table_def eval_substitution_def
          as_relation_def)
  qed
qed

lemma collect_source:
  assumes "collect (map f xs) = Inr ys" and "y \<in> set ys"
  shows "\<exists>x \<in> set xs. f x = Inr y"
  using assms
proof (induction xs arbitrary: ys)
  case Nil
  then show ?case by simp
next
  case (Cons x xs)
  from Cons.prems(1) obtain z zs where
    z: "f x = Inr z" "collect (map f xs) = Inr zs" "ys = z # zs"
    by (cases "f x"; cases "collect (map f xs)") auto
  show ?case
  proof (cases "y = z")
    case True
    with z show ?thesis by simp
  next
    case False
    with z Cons.prems(2) have "y \<in> set zs" by simp
    from Cons.IH[OF z(2) this] show ?thesis by auto
  qed
qed

lemma collect_results:
  assumes "\<And>x y. x \<in> set xs \<Longrightarrow> f x = Inr y \<Longrightarrow> P y"
    and "collect (map f xs) = Inr ys"
    and "y \<in> set ys"
  shows "P y"
proof -
  from collect_source[OF assms(2,3)] obtain x where "x \<in> set xs" "f x = Inr y"
    by blast
  then show ?thesis by (rule assms(1))
qed

lemma concat_Nil_iff: "concat (map g ys) = [] \<longleftrightarrow> (\<forall>y \<in> set ys. g y = [])"
  by (induction ys) auto



lemma collect_placeholder_free:
  assumes "\<And>x z. x \<in> set args \<Longrightarrow> this_desugaring s x = Inr z \<Longrightarrow> placeholders z = []"
    and "collect (map (this_desugaring s) args) = Inr args'"
  shows "concat (map placeholders args') = []"
  unfolding concat_Nil_iff
proof
  fix y assume "y \<in> set args'"
  with assms show "placeholders y = []"
    by (rule collect_results)
qed

lemma resolved_placeholder_free:
  "relations_only s \<Longrightarrow> this_desugaring s e = Inr e' \<Longrightarrow> placeholders e' = []"
proof (induction e arbitrary: e')
  case (ColumnReference tbl name)
  then show ?case by (auto split: sum.splits dest!: eval_col_placeholder_free)
next
  case (ColumnConstExpression v)
  then show ?case by auto
next
  case (ColumnIxExpression tbl name keys optional)
  then show ?case by (auto split: sum.splits dest!: eval_col_placeholder_free)
next
  case (RequireExpression val args)
  from RequireExpression.prems obtain val' args' where
    r: "this_desugaring s val = Inr val'" "collect (map (this_desugaring s) args) = Inr args'"
       "e' = RequireExpression val' args'"
    by (auto split: sum.splits)
  have "concat (map placeholders args') = []"
    using RequireExpression.IH(2) RequireExpression.prems(1) r(2)
    by (intro collect_placeholder_free[of args s])
  with r RequireExpression.IH(1) RequireExpression.prems(1) show ?case by simp
next
  case (ReducerExpression reducer args)
  from ReducerExpression.prems obtain args' where
    r: "collect (map (this_desugaring s) args) = Inr args'" "e' = ReducerExpression reducer args'"
    by (auto split: sum.splits)
  have "concat (map placeholders args') = []"
    using ReducerExpression.IH ReducerExpression.prems(1) r(1)
    by (intro collect_placeholder_free[of args s])
  with r show ?case by simp
next
  case (MethodCallExpression dispatch rtype op_name args)
  from MethodCallExpression.prems obtain args' where
    r: "collect (map (this_desugaring s) args) = Inr args'"
       "e' = MethodCallExpression dispatch rtype op_name args'"
    by (auto split: sum.splits)
  have "concat (map placeholders args') = []"
    using MethodCallExpression.IH MethodCallExpression.prems(1) r(1)
    by (intro collect_placeholder_free[of args s])
  with r show ?case by simp
next
  case (ColumnCallExpression col_expr args)
  from ColumnCallExpression.prems obtain col' args' where
    r: "this_desugaring s col_expr = Inr col'" "collect (map (this_desugaring s) args) = Inr args'"
       "e' = ColumnCallExpression col' args'"
    by (auto split: sum.splits)
  have "concat (map placeholders args') = []"
    using ColumnCallExpression.IH(2) ColumnCallExpression.prems(1) r(2)
    by (intro collect_placeholder_free[of args s])
  with r ColumnCallExpression.IH(1) ColumnCallExpression.prems(1) show ?case by simp
next
  case (PointerExpression tbl args optional)
  from PointerExpression.prems obtain args' v t where
    r: "collect (map (this_desugaring s) args) = Inr args'" "desugar_table s tbl = Inr v"
       "as_relation v = Inr t" "e' = PointerExpression t args' optional"
    by (auto split: sum.splits)
  have "concat (map placeholders args') = []"
    using PointerExpression.IH PointerExpression.prems(1) r(1)
    by (intro collect_placeholder_free[of args s])
  moreover have "this_eval_column_val s tbl ''c'' = Inr (t, ''c'')"
    using r(2,3) by (simp add: this_eval_column_val_def)
  then have "owner_tokens t = []"
    by (rule eval_col_placeholder_free[OF PointerExpression.prems(1)])
  ultimately show ?case using r by simp
qed

subsection \<open>Columns and pointers\<close>

text \<open>
  C2. With the scope token \<^verbatim>\<open>P\<close> bound to the relation \<^verbatim>\<open>A\<close>, the column \<^verbatim>\<open>x\<close> of \<^verbatim>\<open>P\<close>
  resolves to the column \<^verbatim>\<open>x\<close> of \<^verbatim>\<open>A\<close>. A pointer expression is rebuilt from its
  arguments, each resolved recursively, and from its owning relation, resolved the same
  way (a placeholder to the relation it is bound to, a relation to itself), with the
  optional flag it had.
\<close>

theorem this_resolves_column_and_pointer:
  assumes "s P = Some (Context A)"
    and "list_all2 (\<lambda>a a'. this_desugaring s a = Inr a') args args'"
  shows "this_desugaring s (ColumnReference (This P) x) = Inr (ColumnReference (Table A) x)
       \<and> this_desugaring s (PointerExpression (This P) args optional)
           = Inr (PointerExpression (Table A) args' optional)
       \<and> this_desugaring s (PointerExpression (Table n) args optional)
           = Inr (PointerExpression (Table n) args' optional)"
proof -
  from assms(2) have "collect (map (this_desugaring s) args) = Inr args'"
    by (simp add: collect_Inr_iff)
  with assms(1) show ?thesis
    by (simp add: this_eval_column_val_def desugar_table_def eval_substitution_def as_relation_def)
qed

theorem this_resolves_column_and_pointer_witness:
  "(Map.empty(0 \<mapsto> Context 5)) (0::nat) = Some (Context 5)
   \<and> list_all2 (\<lambda>a a'. this_desugaring (Map.empty(0 \<mapsto> Context 5)) a = Inr a')
        [ColumnReference (This 0) ''y''] [ColumnReference (Table 5) ''y'']
   \<and> this_desugaring (Map.empty(0 \<mapsto> Context 5)) (ColumnReference (This 0) ''x'')
        = Inr (ColumnReference (Table 5) ''x'')
   \<and> this_desugaring (Map.empty(0 \<mapsto> Context 5))
          (PointerExpression (This 0) [ColumnReference (This 0) ''y''] True)
        = Inr (PointerExpression (Table 5) [ColumnReference (Table 5) ''y''] True)
   \<and> this_desugaring (Map.empty(0 \<mapsto> Context 5))
          (PointerExpression (Table 3) [ColumnReference (This 0) ''y''] True)
        = Inr (PointerExpression (Table 3) [ColumnReference (Table 5) ''y''] True)"
  using this_resolves_column_and_pointer [of "Map.empty(0 \<mapsto> Context 5)" 0 5
      "[ColumnReference (This 0) ''y'']" "[ColumnReference (Table 5) ''y'']" "''x''" True 3]
  by (simp add: this_eval_column_val_def desugar_table_def eval_substitution_def as_relation_def)

subsection \<open>Idempotence\<close>

text \<open>
  C9. An expression that holds no placeholder (no column reference, base of an indexed
  lookup or pointer is owned by one) is returned by the resolver as it is. When the
  substitution binds scope tokens to relations only, an expression the resolver returns
  holds no placeholder, so that resolving it again returns it unchanged.
\<close>

theorem this_desugaring_idempotent:
  "(placeholders e = [] \<longrightarrow> this_desugaring s e = Inr e)
   \<and> (relations_only s \<and> this_desugaring s e = Inr e'
        \<longrightarrow> placeholders e' = [] \<and> this_desugaring s e' = Inr e')"
  using no_placeholder_unchanged resolved_placeholder_free by blast

theorem this_desugaring_idempotent_witness:
  "placeholders (RequireExpression (ColumnReference (Table 1) ''x'')
       [PointerExpression (Table 2) [ColumnConstExpression (PyInt 7)] False]) = []
   \<and> this_desugaring (Map.empty(0 \<mapsto> Context 5))
        (RequireExpression (ColumnReference (Table 1) ''x'')
          [PointerExpression (Table 2) [ColumnConstExpression (PyInt 7)] False])
      = Inr (RequireExpression (ColumnReference (Table 1) ''x'')
          [PointerExpression (Table 2) [ColumnConstExpression (PyInt 7)] False])
   \<and> relations_only (Map.empty(0 \<mapsto> Context 5))
   \<and> this_desugaring (Map.empty(0 \<mapsto> Context 5))
        (ColumnIxExpression (This 0) ''x'' (ColumnReference (This 0) ''k'') True)
      = Inr (ColumnIxExpression (Table 5) ''x'' (ColumnReference (Table 5) ''k'') True)
   \<and> placeholders (ColumnIxExpression (Table 5) ''x'' (ColumnReference (Table 5) ''k'') True) = []
   \<and> this_desugaring (Map.empty(0 \<mapsto> Context 5))
        (ColumnIxExpression (Table 5) ''x'' (ColumnReference (Table 5) ''k'') True)
      = Inr (ColumnIxExpression (Table 5) ''x'' (ColumnReference (Table 5) ''k'') True)"
proof -
  have r: "relations_only (Map.empty(0 \<mapsto> Context 5))"
    by (simp add: relations_only_def)
  have d: "this_desugaring (Map.empty(0 \<mapsto> Context 5))
        (ColumnIxExpression (This 0) ''x'' (ColumnReference (This 0) ''k'') True)
      = Inr (ColumnIxExpression (Table 5) ''x'' (ColumnReference (Table 5) ''k'') True)"
    by (simp add: this_eval_column_val_def desugar_table_def eval_substitution_def
        as_relation_def)
  show ?thesis
    using r d
      this_desugaring_idempotent [of "RequireExpression (ColumnReference (Table 1) ''x'')
          [PointerExpression (Table 2) [ColumnConstExpression (PyInt 7)] False]"
        "Map.empty(0 \<mapsto> Context 5)"]
      this_desugaring_idempotent [of
        "ColumnIxExpression (This 0) ''x'' (ColumnReference (This 0) ''k'') True"
        "Map.empty(0 \<mapsto> Context 5)"
        "ColumnIxExpression (Table 5) ''x'' (ColumnReference (Table 5) ''k'') True"]
    by simp
qed

section \<open>Properties of the inline-call desugarer\<close>

subsection \<open>Dictionaries with pairwise different keys, and the synthetic names\<close>

lemma dict_set_fresh: "k \<notin> set (map fst d) \<Longrightarrow> dict_set d k v = d @ [(k, v)]"
  by (induction d) auto



declare string_of_nat.simps [simp del]


lemma string_of_nat_small: "n < 10 \<Longrightarrow> string_of_nat n = [digit_char n]"
  by (subst string_of_nat.simps) simp

lemma string_of_nat_large:
  "\<not> n < 10 \<Longrightarrow> string_of_nat n = string_of_nat (n div 10) @ [digit_char (n mod 10)]"
  by (subst string_of_nat.simps) simp




lemma arg_name_0: "arg_name 0 = ''arg_0''"
  by (simp add: arg_name_def string_of_nat_small digit_char_def)

lemma arg_name_12: "arg_name 12 = ''arg_12''"
  by (simp add: arg_name_def string_of_nat_small string_of_nat_large digit_char_def)


subsection \<open>Inline calls\<close>



subsection \<open>Reducers in an aggregation\<close>

text \<open>
  C7. For a reducer expression met while an aggregation is desugared, \<^verbatim>\<open>eval_reducer\<close>
  first desugars the arguments with the projection-flavour desugarer of the relation that
  is grouped (so an inline call among them, its callee included, is bound by a
  \<^verbatim>\<open>select\<close> on that relation and not by a \<^verbatim>\<open>reduce\<close> on the group), and then rebuilds
  the reducer expression with the same reducer around the rewritten arguments.
\<close>

theorem eval_reducer_uses_group_source:
  assumes "list_all2 (\<lambda>a a'. table_callback_desugaring c
              (TableSelectDesugaring (joinable_to_group c table_like)) a = Inr a') args args'"
  shows "table_callback_desugaring c (TableReduceDesugaring table_like)
           (ReducerExpression reducer args) = Inr (ReducerExpression reducer args')"
proof -
  from assms have "collect (map (table_callback_desugaring c
      (TableSelectDesugaring (joinable_to_group c table_like))) args) = Inr args'"
    by (simp add: collect_Inr_iff)
  then show ?thesis by simp
qed

theorem eval_reducer_uses_group_source_witness:
  "table_callback_desugaring
      \<lparr>eval_type = (\<lambda>e. Inr 1),
       method_call_transformer = (\<lambda>n dtype. Inr (100 + n)),
       transformer_table = (\<lambda>transformer input. Inr (transformer + input)),
       table_select = (\<lambda>t kwargs. if t = 4 then Inr 10 else Inl 7),
       grouped_reduce = (\<lambda>g kwargs. Inl 99),
       joinable_to_group = (\<lambda>g. g + 1)\<rparr>
      (TableReduceDesugaring 3)
      (ReducerExpression 0
        [ColumnCallExpression (ColumnReference (Table 4) ''f'') [ColumnReference (Table 4) ''a'']])
    = Inr (ReducerExpression 0 [ColumnReference (Table 111) ''result''])"
  using eval_reducer_uses_group_source [of
      "\<lparr>eval_type = (\<lambda>e. Inr 1),
       method_call_transformer = (\<lambda>n dtype. Inr (100 + n)),
       transformer_table = (\<lambda>transformer input. Inr (transformer + input)),
       table_select = (\<lambda>t kwargs. if t = 4 then Inr 10 else Inl 7),
       grouped_reduce = (\<lambda>g kwargs. Inl 99),
       joinable_to_group = (\<lambda>g. g + 1)\<rparr>"
      3 "[ColumnCallExpression (ColumnReference (Table 4) ''f'') [ColumnReference (Table 4) ''a'']]"
      "[ColumnReference (Table 111) ''result'']" 0]
  by (simp add: identity_eval_column_val_def external_def arg_name_0 call_operator_def py_dict_def)


section \<open>Properties of argument normalisation\<close>

lemma add_each_append:
  "add_each acc (xs @ ys) =
     (case add_each acc xs of Inl e \<Rightarrow> Inl e | Inr acc' \<Rightarrow> add_each acc' ys)"
proof (induction xs arbitrary: acc)
  case Nil
  then show ?case by simp
next
  case (Cons x xs)
  obtain n v where "x = (n, v)" by (cases x)
  with Cons show ?case by (cases "add acc n v") simp_all
qed

lemma combine_as_one_loop:
  "combine_args_kwargs smart_name args kwargs =
     add_each [] (map (\<lambda>expression. (smart_name expression, expression)) args
                  @ map (\<lambda>(name, expression). (Some name, expression)) kwargs)"
  by (simp add: combine_args_kwargs_def add_each_append)

lemma add_ok:
  assumes "\<not> is_table v" "n \<notin> set (map fst acc)" "n \<noteq> Some ''id''" "stored v = Some e"
  shows "add acc n v = Inr (acc @ [(n, e)])"
  using assms by (cases v) (simp_all add: add_def dict_set_fresh)

lemma stored_Some: "\<not> is_table v \<Longrightarrow> \<exists>e. stored v = Some e"
  by (cases v) simp_all

lemma add_each_ok:
  assumes "distinct (map fst acc @ map fst items)"
    and "Some ''id'' \<notin> set (map fst items)"
    and "\<not> list_ex is_table (map snd items)"
  shows "\<exists>r. add_each acc items = Inr (acc @ r) \<and> map fst r = map fst items
            \<and> map (\<lambda>(n, e). Some e) r = map (\<lambda>(n, v). stored v) items"
  using assms
proof (induction items arbitrary: acc)
  case Nil
  then show ?case by simp
next
  case (Cons item items)
  obtain n v where item: "item = (n, v)" by (cases item)
  with Cons.prems obtain e where e: "stored v = Some e"
    using stored_Some[of v] by auto
  from Cons.prems item e have step: "add acc n v = Inr (acc @ [(n, e)])"
    by (intro add_ok) auto
  from Cons.prems item have "distinct (map fst (acc @ [(n, e)]) @ map fst items)"
    "Some ''id'' \<notin> set (map fst items)" "\<not> list_ex is_table (map snd items)"
    by auto
  from Cons.IH[OF this] obtain r where
    r: "add_each (acc @ [(n, e)]) items = Inr ((acc @ [(n, e)]) @ r)"
       "map fst r = map fst items"
       "map (\<lambda>(n, e). Some e) r = map (\<lambda>(n, v). stored v) items"
    by blast
  show ?case
  proof (intro exI conjI)
    show "add_each acc (item # items) = Inr (acc @ ((n, e) # r))"
      using item step r(1) by simp
    show "map fst ((n, e) # r) = map fst (item # items)"
      using item r(2) by simp
    show "map (\<lambda>(n, e). Some e) ((n, e) # r) = map (\<lambda>(n, v). stored v) (item # items)"
      using item e r(3) by simp
  qed
qed

lemma add_Inr:
  assumes "add acc n v = Inr acc'"
  shows "\<not> is_table v \<and> n \<notin> set (map fst acc) \<and> n \<noteq> Some ''id''
         \<and> map fst acc' = map fst acc @ [n]"
  using assms by (cases v) (auto simp: add_def dict_set_fresh split: if_splits)

lemma add_each_Inr:
  assumes "add_each acc items = Inr r" and "distinct (map fst acc)"
  shows "distinct (map fst acc @ map fst items) \<and> Some ''id'' \<notin> set (map fst items)
         \<and> \<not> list_ex is_table (map snd items)"
  using assms
proof (induction items arbitrary: acc)
  case Nil
  then show ?case by simp
next
  case (Cons item items)
  obtain n v where item: "item = (n, v)" by (cases item)
  with Cons.prems(1) obtain acc' where
    step: "add acc n v = Inr acc'" and rest: "add_each acc' items = Inr r"
    by (cases "add acc n v") auto
  note a = add_Inr[OF step]
  from a Cons.prems(2) have "distinct (map fst acc')" by simp
  from Cons.IH[OF rest this] a item show ?case by auto
qed

lemma add_each_duplicate:
  assumes "\<not> distinct (map fst acc @ map fst items)" and "distinct (map fst acc)"
    and "Some ''id'' \<notin> set (map fst items)"
    and "\<not> list_ex is_table (map snd items)"
  shows "\<exists>n. add_each acc items = Inl (DuplicateName n)"
  using assms
proof (induction items arbitrary: acc)
  case Nil
  then show ?case by simp
next
  case (Cons item items)
  obtain n v where item: "item = (n, v)" by (cases item)
  show ?case
  proof (cases "n \<in> set (map fst acc)")
    case True
    with Cons.prems item have "add acc n v = Inl (DuplicateName n)"
      by (cases v) (simp_all add: add_def)
    with item show ?thesis by auto
  next
    case False
    from Cons.prems item obtain e where e: "stored v = Some e"
      using stored_Some[of v] by auto
    from Cons.prems item e False have step: "add acc n v = Inr (acc @ [(n, e)])"
      by (intro add_ok) auto
    from Cons.prems item False have
      "\<not> distinct (map fst (acc @ [(n, e)]) @ map fst items)"
      "distinct (map fst (acc @ [(n, e)]))"
      "Some ''id'' \<notin> set (map fst items)" "\<not> list_ex is_table (map snd items)"
      by auto
    from Cons.IH[OF this] obtain m where
      "add_each (acc @ [(n, e)]) items = Inl (DuplicateName m)" by blast
    with item step show ?thesis by auto
  qed
qed

lemma add_each_reserved:
  assumes "distinct (map fst acc @ map fst items)"
    and "Some ''id'' \<in> set (map fst items)"
    and "\<not> list_ex is_table (map snd items)"
  shows "add_each acc items = Inl ReservedName"
  using assms
proof (induction items arbitrary: acc)
  case Nil
  then show ?case by simp
next
  case (Cons item items)
  obtain n v where item: "item = (n, v)" by (cases item)
  show ?case
  proof (cases "n = Some ''id''")
    case True
    with Cons.prems item have "add acc n v = Inl ReservedName"
      by (cases v) (auto simp: add_def)
    with item show ?thesis by simp
  next
    case False
    from Cons.prems item obtain e where e: "stored v = Some e"
      using stored_Some[of v] by auto
    from Cons.prems item e False have step: "add acc n v = Inr (acc @ [(n, e)])"
      by (intro add_ok) auto
    from Cons.prems item False have
      "distinct (map fst (acc @ [(n, e)]) @ map fst items)"
      "Some ''id'' \<in> set (map fst items)" "\<not> list_ex is_table (map snd items)"
      by auto
    from Cons.IH[OF this] item step show ?thesis by simp
  qed
qed

subsection \<open>The normalised mapping and the errors\<close>

lemma combine_over_entries:
  "combine_args_kwargs smart_name args kwargs = add_each [] (entries smart_name args kwargs)"
  by (simp add: combine_as_one_loop entries_def)

lemma add_each_first_offender:
  assumes "distinct (map fst pre)" "Some ''id'' \<notin> set (map fst pre)"
    "\<not> list_ex is_table (map snd pre)"
    and "is_table v \<or> name \<in> set (map fst pre) \<or> name = Some ''id''"
  shows "add_each [] (pre @ (name, v) # post) =
     Inl (if is_table v then AssertionError ExpressionIsTable
          else if name \<in> set (map fst pre) then DuplicateName name
          else ReservedName)"
proof -
  from assms(1-3) have "distinct (map fst [] @ map fst pre)" "Some ''id'' \<notin> set (map fst pre)"
    "\<not> list_ex is_table (map snd pre)" by simp_all
  from add_each_ok[OF this] obtain r where
    r: "add_each [] pre = Inr r" "map fst r = map fst pre" by auto
  have "add r name v =
     Inl (if is_table v then AssertionError ExpressionIsTable
          else if name \<in> set (map fst pre) then DuplicateName name
          else ReservedName)"
    using assms(4) r(2) by (cases v) (auto simp: add_def)
  with r(1) show ?thesis by (simp add: add_each_append)
qed

lemma first_table_split:
  assumes "list_ex is_table (map snd items)"
  shows "\<exists>pre name v post. items = pre @ (name, v) # post \<and> is_table v
           \<and> \<not> list_ex is_table (map snd pre)"
  using assms
proof (induction items)
  case Nil
  then show ?case by simp
next
  case (Cons item items)
  obtain n w where item: "item = (n, w)" by (cases item)
  show ?case
  proof (cases "is_table w")
    case True
    with item have "item # items = [] @ (n, w) # items \<and> is_table w
        \<and> \<not> list_ex is_table (map snd [])" by simp
    then show ?thesis by blast
  next
    case False
    with Cons.prems item have "list_ex is_table (map snd items)" by simp
    from Cons.IH[OF this] obtain pre name v post where
      s: "items = pre @ (name, v) # post" "is_table v" "\<not> list_ex is_table (map snd pre)"
      by blast
    with False item have "item # items = (item # pre) @ (name, v) # post \<and> is_table v
        \<and> \<not> list_ex is_table (map snd (item # pre))" by simp
    then show ?thesis by blast
  qed
qed

lemma add_each_table:
  assumes "distinct (map fst items)" "Some ''id'' \<notin> set (map fst items)"
    "list_ex is_table (map snd items)"
  shows "add_each [] items = Inl (AssertionError ExpressionIsTable)"
proof -
  from first_table_split[OF assms(3)] obtain pre name v post where
    s: "items = pre @ (name, v) # post" "is_table v" "\<not> list_ex is_table (map snd pre)"
    by blast
  from assms(1,2) s(1) have "distinct (map fst pre)" "Some ''id'' \<notin> set (map fst pre)"
    by simp_all
  from add_each_first_offender[OF this s(3), of v name post] s(1,2) show ?thesis by simp
qed

lemma combine_returns_or_raises:
  "(distinct (effective_names smart_name args kwargs)
      \<and> Some ''id'' \<notin> set (effective_names smart_name args kwargs)
      \<and> \<not> list_ex is_table (args @ map snd kwargs)
    \<longrightarrow> (\<exists>all_args. combine_args_kwargs smart_name args kwargs = Inr all_args
          \<and> length all_args = length args + length kwargs
          \<and> map fst all_args = effective_names smart_name args kwargs
          \<and> map (\<lambda>(name, e). Some e) all_args = map stored (args @ map snd kwargs)))
   \<and> (\<not> distinct (effective_names smart_name args kwargs)
      \<and> Some ''id'' \<notin> set (effective_names smart_name args kwargs)
      \<and> \<not> list_ex is_table (args @ map snd kwargs)
    \<longrightarrow> (\<exists>name. combine_args_kwargs smart_name args kwargs = Inl (DuplicateName name)))
   \<and> (distinct (effective_names smart_name args kwargs)
      \<and> Some ''id'' \<in> set (effective_names smart_name args kwargs)
      \<and> \<not> list_ex is_table (args @ map snd kwargs)
    \<longrightarrow> combine_args_kwargs smart_name args kwargs = Inl ReservedName)
   \<and> ((\<exists>all_args. combine_args_kwargs smart_name args kwargs = Inr all_args)
    \<longleftrightarrow> distinct (effective_names smart_name args kwargs)
      \<and> Some ''id'' \<notin> set (effective_names smart_name args kwargs)
      \<and> \<not> list_ex is_table (args @ map snd kwargs))"
proof -
  let ?items = "map (\<lambda>expression. (smart_name expression, expression)) args
                  @ map (\<lambda>(name, expression). (Some name, expression)) kwargs"
  have names: "map fst ?items = effective_names smart_name args kwargs"
    by (simp add: effective_names_def comp_def split_def)
  have vals: "map snd ?items = args @ map snd kwargs"
    by (simp add: comp_def split_def)
  have stored_vals: "map (\<lambda>(n, v). stored v) ?items = map stored (args @ map snd kwargs)"
    by (simp add: comp_def split_def)
  have loop: "combine_args_kwargs smart_name args kwargs = add_each [] ?items"
    by (rule combine_as_one_loop)
  have ok: "\<exists>all_args. combine_args_kwargs smart_name args kwargs = Inr all_args
          \<and> length all_args = length args + length kwargs
          \<and> map fst all_args = effective_names smart_name args kwargs
          \<and> map (\<lambda>(name, e). Some e) all_args = map stored (args @ map snd kwargs)"
    if "distinct (effective_names smart_name args kwargs)"
      "Some ''id'' \<notin> set (effective_names smart_name args kwargs)"
      "\<not> list_ex is_table (args @ map snd kwargs)"
  proof -
    from that have "distinct (map fst [] @ map fst ?items)" "Some ''id'' \<notin> set (map fst ?items)"
      "\<not> list_ex is_table (map snd ?items)"
      unfolding names vals by simp_all
    from add_each_ok[OF this] obtain r where
      r: "add_each [] ?items = Inr r" "map fst r = map fst ?items"
         "map (\<lambda>(n, e). Some e) r = map (\<lambda>(n, v). stored v) ?items"
      by auto
    from r(2) have "length r = length ?items" by (rule map_eq_imp_length_eq)
    with r show ?thesis unfolding loop names stored_vals by simp
  qed
  have dup: "\<exists>name. combine_args_kwargs smart_name args kwargs = Inl (DuplicateName name)"
    if "\<not> distinct (effective_names smart_name args kwargs)"
      "Some ''id'' \<notin> set (effective_names smart_name args kwargs)"
      "\<not> list_ex is_table (args @ map snd kwargs)"
  proof -
    from that have "\<not> distinct (map fst [] @ map fst ?items)" "distinct (map fst ([] :: (string option \<times> expr) list))"
      "Some ''id'' \<notin> set (map fst ?items)" "\<not> list_ex is_table (map snd ?items)"
      unfolding names vals by simp_all
    from add_each_duplicate[OF this] show ?thesis unfolding loop .
  qed
  have reserved: "combine_args_kwargs smart_name args kwargs = Inl ReservedName"
    if "distinct (effective_names smart_name args kwargs)"
      "Some ''id'' \<in> set (effective_names smart_name args kwargs)"
      "\<not> list_ex is_table (args @ map snd kwargs)"
  proof -
    from that have "distinct (map fst [] @ map fst ?items)" "Some ''id'' \<in> set (map fst ?items)"
      "\<not> list_ex is_table (map snd ?items)"
      unfolding names vals by simp_all
    from add_each_reserved[OF this] show ?thesis unfolding loop .
  qed
  have only: "distinct (effective_names smart_name args kwargs)
      \<and> Some ''id'' \<notin> set (effective_names smart_name args kwargs)
      \<and> \<not> list_ex is_table (args @ map snd kwargs)"
    if "combine_args_kwargs smart_name args kwargs = Inr all_args" for all_args
  proof -
    from that have "add_each [] ?items = Inr all_args" unfolding loop .
    from add_each_Inr[OF this] show ?thesis unfolding names vals by simp
  qed
  have iff: "(\<exists>all_args. combine_args_kwargs smart_name args kwargs = Inr all_args)
    \<longleftrightarrow> distinct (effective_names smart_name args kwargs)
      \<and> Some ''id'' \<notin> set (effective_names smart_name args kwargs)
      \<and> \<not> list_ex is_table (args @ map snd kwargs)"
    using ok only by blast
  show ?thesis
  proof (intro conjI impI)
    assume "distinct (effective_names smart_name args kwargs)
      \<and> Some ''id'' \<notin> set (effective_names smart_name args kwargs)
      \<and> \<not> list_ex is_table (args @ map snd kwargs)"
    then show "\<exists>all_args. combine_args_kwargs smart_name args kwargs = Inr all_args
          \<and> length all_args = length args + length kwargs
          \<and> map fst all_args = effective_names smart_name args kwargs
          \<and> map (\<lambda>(name, e). Some e) all_args = map stored (args @ map snd kwargs)"
      using ok by simp
  next
    assume "\<not> distinct (effective_names smart_name args kwargs)
      \<and> Some ''id'' \<notin> set (effective_names smart_name args kwargs)
      \<and> \<not> list_ex is_table (args @ map snd kwargs)"
    then show "\<exists>name. combine_args_kwargs smart_name args kwargs = Inl (DuplicateName name)"
      using dup by simp
  next
    assume "distinct (effective_names smart_name args kwargs)
      \<and> Some ''id'' \<in> set (effective_names smart_name args kwargs)
      \<and> \<not> list_ex is_table (args @ map snd kwargs)"
    then show "combine_args_kwargs smart_name args kwargs = Inl ReservedName"
      using reserved by simp
  next
    show "(\<exists>all_args. combine_args_kwargs smart_name args kwargs = Inr all_args)
    \<longleftrightarrow> distinct (effective_names smart_name args kwargs)
      \<and> Some ''id'' \<notin> set (effective_names smart_name args kwargs)
      \<and> \<not> list_ex is_table (args @ map snd kwargs)"
      by (rule iff)
  qed
qed

lemma entries_names: "map fst (entries smart_name args kwargs) = effective_names smart_name args kwargs"
  by (simp add: entries_def effective_names_def comp_def split_def)

lemma entries_values: "map snd (entries smart_name args kwargs) = args @ map snd kwargs"
  by (simp add: entries_def comp_def split_def)

text \<open>
  C3, as the code has it. The effective names are the smart names of the positional
  values followed by the keywords. When they are pairwise different, none is \<^verbatim>\<open>id\<close> and
  no value is a \<^verbatim>\<open>Table\<close>, \<^verbatim>\<open>combine_args_kwargs\<close> returns a mapping with one entry per
  value, n + m in all, under those names in order; an expression is stored as it is and
  any other value wrapped as a constant expression. When no name is \<^verbatim>\<open>id\<close> and no value
  is a table, a repeated name raises the duplicate-name error; when the names are
  pairwise different and no value is a table, a name \<^verbatim>\<open>id\<close> raises the reserved-name
  error; when the names are pairwise different and none is \<^verbatim>\<open>id\<close>, a value that is a
  table fails the assertion of line 249. It returns in no other case. Where several of
  these meet, the first value in the order of adding decides: after values that are
  added without error, a value that is a table fails the assertion, otherwise a name
  already present raises the duplicate-name error, otherwise the name \<^verbatim>\<open>id\<close> raises the
  reserved-name error.
\<close>

theorem combine_args_kwargs_normalises:
  "(distinct (effective_names smart_name args kwargs)
      \<and> Some ''id'' \<notin> set (effective_names smart_name args kwargs)
      \<and> \<not> list_ex is_table (args @ map snd kwargs)
    \<longrightarrow> (\<exists>all_args. combine_args_kwargs smart_name args kwargs = Inr all_args
          \<and> length all_args = length args + length kwargs
          \<and> map fst all_args = effective_names smart_name args kwargs
          \<and> map (\<lambda>(name, e). Some e) all_args = map stored (args @ map snd kwargs)))
   \<and> (\<not> distinct (effective_names smart_name args kwargs)
      \<and> Some ''id'' \<notin> set (effective_names smart_name args kwargs)
      \<and> \<not> list_ex is_table (args @ map snd kwargs)
    \<longrightarrow> (\<exists>name. combine_args_kwargs smart_name args kwargs = Inl (DuplicateName name)))
   \<and> (distinct (effective_names smart_name args kwargs)
      \<and> Some ''id'' \<in> set (effective_names smart_name args kwargs)
      \<and> \<not> list_ex is_table (args @ map snd kwargs)
    \<longrightarrow> combine_args_kwargs smart_name args kwargs = Inl ReservedName)
   \<and> ((\<exists>all_args. combine_args_kwargs smart_name args kwargs = Inr all_args)
    \<longleftrightarrow> distinct (effective_names smart_name args kwargs)
      \<and> Some ''id'' \<notin> set (effective_names smart_name args kwargs)
      \<and> \<not> list_ex is_table (args @ map snd kwargs))
   \<and> (distinct (effective_names smart_name args kwargs)
      \<and> Some ''id'' \<notin> set (effective_names smart_name args kwargs)
      \<and> list_ex is_table (args @ map snd kwargs)
    \<longrightarrow> combine_args_kwargs smart_name args kwargs = Inl (AssertionError ExpressionIsTable))
   \<and> (entries smart_name args kwargs = pre @ (name, v) # post
      \<and> distinct (map fst pre) \<and> Some ''id'' \<notin> set (map fst pre)
      \<and> \<not> list_ex is_table (map snd pre)
      \<and> (is_table v \<or> name \<in> set (map fst pre) \<or> name = Some ''id'')
    \<longrightarrow> combine_args_kwargs smart_name args kwargs =
          Inl (if is_table v then AssertionError ExpressionIsTable
               else if name \<in> set (map fst pre) then DuplicateName name
               else ReservedName))"
proof -
  note outcomes = combine_returns_or_raises [of smart_name args kwargs]
  have table: "distinct (effective_names smart_name args kwargs)
      \<and> Some ''id'' \<notin> set (effective_names smart_name args kwargs)
      \<and> list_ex is_table (args @ map snd kwargs)
    \<longrightarrow> combine_args_kwargs smart_name args kwargs = Inl (AssertionError ExpressionIsTable)"
  proof
    assume a: "distinct (effective_names smart_name args kwargs)
      \<and> Some ''id'' \<notin> set (effective_names smart_name args kwargs)
      \<and> list_ex is_table (args @ map snd kwargs)"
    then have "distinct (map fst (entries smart_name args kwargs))"
      "Some ''id'' \<notin> set (map fst (entries smart_name args kwargs))"
      "list_ex is_table (map snd (entries smart_name args kwargs))"
      unfolding entries_names entries_values by simp_all
    from add_each_table[OF this]
    show "combine_args_kwargs smart_name args kwargs = Inl (AssertionError ExpressionIsTable)"
      by (simp add: combine_over_entries)
  qed
  have first: "entries smart_name args kwargs = pre @ (name, v) # post
      \<and> distinct (map fst pre) \<and> Some ''id'' \<notin> set (map fst pre)
      \<and> \<not> list_ex is_table (map snd pre)
      \<and> (is_table v \<or> name \<in> set (map fst pre) \<or> name = Some ''id'')
    \<longrightarrow> combine_args_kwargs smart_name args kwargs =
          Inl (if is_table v then AssertionError ExpressionIsTable
               else if name \<in> set (map fst pre) then DuplicateName name
               else ReservedName)"
  proof
    assume a: "entries smart_name args kwargs = pre @ (name, v) # post
      \<and> distinct (map fst pre) \<and> Some ''id'' \<notin> set (map fst pre)
      \<and> \<not> list_ex is_table (map snd pre)
      \<and> (is_table v \<or> name \<in> set (map fst pre) \<or> name = Some ''id'')"
    then have e: "entries smart_name args kwargs = pre @ (name, v) # post"
      and p: "distinct (map fst pre)" "Some ''id'' \<notin> set (map fst pre)"
        "\<not> list_ex is_table (map snd pre)"
        "is_table v \<or> name \<in> set (map fst pre) \<or> name = Some ''id''"
      by simp_all
    from add_each_first_offender[OF p, of post]
    show "combine_args_kwargs smart_name args kwargs =
          Inl (if is_table v then AssertionError ExpressionIsTable
               else if name \<in> set (map fst pre) then DuplicateName name
               else ReservedName)"
      unfolding combine_over_entries e .
  qed
  from outcomes table first show ?thesis
    by (elim conjE, intro conjI) assumption+
qed

theorem combine_args_kwargs_normalises_witness:
  "combine_args_kwargs column_name
      [ExpressionArg (ColumnReference (Table 0) ''a'')] [(''b'', OtherArg (PyInt 1))]
     = Inr [(Some ''a'', ColumnReference (Table 0) ''a''),
            (Some ''b'', ColumnConstExpression (PyInt 1))]
   \<and> combine_args_kwargs column_name
      [ExpressionArg (ColumnReference (Table 0) ''a'')]
      [(''a'', ExpressionArg (ColumnReference (Table 1) ''c''))]
     = Inl (DuplicateName (Some ''a''))
   \<and> combine_args_kwargs column_name
      [ExpressionArg (ColumnReference (Table 0) ''a'')] [(''id'', OtherArg (PyInt 1))]
     = Inl ReservedName
   \<and> combine_args_kwargs column_name
      [ExpressionArg (ColumnReference (Table 0) ''a'')] [(''t'', TableArg 0)]
     = Inl (AssertionError ExpressionIsTable)
   \<and> entries column_name [] [(''id'', OtherArg (PyInt 1)), (''t'', TableArg 0)]
     = [] @ (Some ''id'', OtherArg (PyInt 1)) # [(Some ''t'', TableArg 0)]
   \<and> combine_args_kwargs column_name [] [(''id'', OtherArg (PyInt 1)), (''t'', TableArg 0)]
     = Inl ReservedName
   \<and> entries column_name [] [(''t'', TableArg 0), (''id'', OtherArg (PyInt 1))]
     = [] @ (Some ''t'', TableArg 0) # [(Some ''id'', OtherArg (PyInt 1))]
   \<and> combine_args_kwargs column_name [] [(''t'', TableArg 0), (''id'', OtherArg (PyInt 1))]
     = Inl (AssertionError ExpressionIsTable)"
  using
    combine_args_kwargs_normalises [where smart_name=column_name
      and args="[ExpressionArg (ColumnReference (Table 0) ''a'')]"
      and kwargs="[(''b'', OtherArg (PyInt 1))]"]
    combine_args_kwargs_normalises [where smart_name=column_name
      and args="[ExpressionArg (ColumnReference (Table 0) ''a'')]"
      and kwargs="[(''a'', ExpressionArg (ColumnReference (Table 1) ''c''))]"]
    combine_args_kwargs_normalises [where smart_name=column_name
      and args="[ExpressionArg (ColumnReference (Table 0) ''a'')]"
      and kwargs="[(''id'', OtherArg (PyInt 1))]"]
    combine_args_kwargs_normalises [where smart_name=column_name
      and args="[ExpressionArg (ColumnReference (Table 0) ''a'')]"
      and kwargs="[(''t'', TableArg 0)]"]
    combine_args_kwargs_normalises [where smart_name=column_name and args="[]"
      and kwargs="[(''id'', OtherArg (PyInt 1)), (''t'', TableArg 0)]"
      and pre="[]" and name="Some ''id''" and v="OtherArg (PyInt 1)"
      and post="[(Some ''t'', TableArg 0)]"]
    combine_args_kwargs_normalises [where smart_name=column_name and args="[]"
      and kwargs="[(''t'', TableArg 0), (''id'', OtherArg (PyInt 1))]"
      and pre="[]" and name="Some ''t''" and v="TableArg 0"
      and post="[(Some ''id'', OtherArg (PyInt 1))]"]
  by (simp add: effective_names_def entries_def column_name_def combine_args_kwargs_def add_def)

text \<open>
  C3 as stated fails in its last part: one keyword, not \<^verbatim>\<open>id\<close> and not repeated, whose
  value is a table, and the call raises (the assertion of line 249).
\<close>

theorem combine_args_kwargs_table_asserts:
  "combine_args_kwargs column_name [] [(''t'', TableArg 0)]
     = Inl (AssertionError ExpressionIsTable)"
  by (simp add: combine_args_kwargs_def add_def)

section \<open>Properties of call interception\<close>

subsection \<open>Where an error comes from\<close>

lemma collect_Inl:
  "collect (map f xs) = Inl e \<Longrightarrow> \<exists>x \<in> set xs. f x = Inl e"
proof (induction xs)
  case Nil
  then show ?case by simp
next
  case (Cons x xs)
  then show ?case
    by (cases "f x"; cases "collect (map f xs)") auto
qed

lemma external_Inl: "external r = Inl e \<Longrightarrow> \<exists>code. e = External code"
  by (cases r) (auto simp: external_def)

lemma this_eval_column_val_Inl:
  "this_eval_column_val s tbl name = Inl e \<Longrightarrow> e \<noteq> AssertionError a"
  by (cases tbl)
    (auto simp: this_eval_column_val_def desugar_table_def eval_substitution_def
      as_relation_def split: option.splits pyval.splits sum.splits)

lemma desugar_table_Inl:
  "desugar_table s tbl = Inl e \<Longrightarrow> e \<noteq> AssertionError a"
  by (cases tbl) (auto simp: desugar_table_def eval_substitution_def split: option.splits)

lemma as_relation_Inl: "as_relation v = Inl e \<Longrightarrow> e \<noteq> AssertionError a"
  by (cases v) (auto simp: as_relation_def)

lemma this_desugaring_Inl:
  "this_desugaring s e = Inl err \<Longrightarrow> err \<noteq> AssertionError a"
proof (induction e)
  case (ColumnReference tbl name)
  then show ?case by (auto split: sum.splits dest: this_eval_column_val_Inl)
next
  case (ColumnConstExpression v)
  then show ?case by simp
next
  case (ColumnIxExpression tbl name keys optional)
  then show ?case by (auto split: sum.splits dest: this_eval_column_val_Inl)
next
  case (RequireExpression val args)
  then show ?case by (auto split: sum.splits dest!: collect_Inl)
next
  case (ReducerExpression reducer args)
  then show ?case by (auto split: sum.splits dest!: collect_Inl)
next
  case (MethodCallExpression dispatch rtype op_name args)
  then show ?case by (auto split: sum.splits dest!: collect_Inl)
next
  case (ColumnCallExpression col_expr args)
  then show ?case by (auto split: sum.splits dest!: collect_Inl)
next
  case (PointerExpression tbl args optional)
  then show ?case
    by (auto split: sum.splits dest!: collect_Inl dest: desugar_table_Inl as_relation_Inl)
qed

lemma desugar_this_arg_Inl:
  "desugar_this_arg s v = Inl err \<Longrightarrow> err \<noteq> AssertionError a"
  by (cases v) (auto simp: desugar_this_arg_def split: sum.splits dest: this_desugaring_Inl)

lemma desugar_this_args_Inl:
  "desugar_this_args ic s args = Inl err \<Longrightarrow> err \<noteq> AssertionError NamedArgsEmpty"
proof (induction args)
  case Nil
  then show ?case by simp
next
  case (Cons arg rest)
  then show ?case
    by (cases arg)
      (auto split: sum.splits if_splits dest: external_Inl desugar_this_arg_Inl)
qed

lemma expand_guarded_Inl:
  "expand_guarded ic s kwargs new_kwargs = Inl err \<Longrightarrow> err \<noteq> AssertionError NamedArgsEmpty"
proof (induction kwargs arbitrary: new_kwargs)
  case Nil
  then show ?case by simp
next
  case (Cons item rest)
  obtain name arg where "item = (name, arg)" by (cases item)
  with Cons show ?case
    by (cases arg) (auto split: sum.splits if_splits dest: external_Inl)
qed

lemma map_values_Inl:
  assumes "map_values f d = Inl err" and "\<And>v e. f v = Inl e \<Longrightarrow> e \<noteq> bad"
  shows "err \<noteq> bad"
proof -
  from assms(1) have "collect (map (\<lambda>(name, arg). f arg) d) = Inl err"
    by (auto simp: map_values_def split: sum.splits)
  then obtain x where "x \<in> set d" "(\<lambda>(name, arg). f arg) x = Inl err"
    using collect_Inl by blast
  then obtain arg where "f arg = Inl err" by (auto split: prod.splits)
  then show ?thesis by (rule assms(2))
qed

lemma desugar_this_kwargs_Inl:
  assumes "desugar_this_kwargs ic s kwargs = Inl err"
  shows "err \<noteq> AssertionError NamedArgsEmpty"
proof (cases "expand_guarded ic s kwargs
     (py_dict (filter (\<lambda>(name, arg). \<not> startswith name (key_guard ic)) kwargs))")
  case (Inl e)
  with assms show ?thesis
    by (auto simp: desugar_this_kwargs_def dest: expand_guarded_Inl)
next
  case (Inr new_kwargs)
  with assms have "map_values (desugar_this_arg s) new_kwargs = Inl err"
    by (simp add: desugar_this_kwargs_def)
  then show ?thesis
    by (rule map_values_Inl) (rule desugar_this_arg_Inl)
qed

lemma bind_scopes_Inl:
  "bind_scopes named_args sp s = Inl err \<Longrightarrow> err \<noteq> AssertionError NamedArgsEmpty"
proof (induction sp arbitrary: s)
  case Nil
  then show ?case by simp
next
  case (Cons item rest)
  obtain key v where "item = (key, v)" by (cases item)
  with Cons show ?case
    by (auto split: pyval.splits pyobject.splits option.splits)
qed

lemma context_eval_Inl:
  "context_eval ic n v = Inl err \<Longrightarrow> err \<noteq> AssertionError a"
  by (cases v) (auto simp: context_eval_def split: sum.splits dest: external_Inl)

lemma dict_set_not_Nil: "dict_set d k v \<noteq> []"
  by (induction d k v rule: dict_set.induct) auto

lemma dict_update_Nil: "dict_update d items = [] \<longleftrightarrow> d = [] \<and> items = []"
proof (induction items arbitrary: d)
  case Nil
  then show ?case by simp
next
  case (Cons item items)
  obtain k v where "item = (k, v)" by (cases item)
  with Cons show ?case by (simp add: dict_set_not_Nil)
qed

lemma named_args_of_Nil:
  "named_args_of names args kwargs = [] \<longleftrightarrow> kwargs = [] \<and> (names = [] \<or> args = [])"
  by (auto simp: named_args_of_def py_dict_def dict_update_Nil)

lemma this_substitution_Inl:
  "this_substitution ic named_args ctx = Inl err \<Longrightarrow> err \<noteq> AssertionError NamedArgsEmpty"
  unfolding this_substitution_def by (rule bind_scopes_Inl)

lemma wrapper_bound:
  assumes "named_args_of (arg_names ic) args kwargs = (first_name, first_arg) # others"
  shows "wrapper ic args kwargs \<noteq> Inl (AssertionError NamedArgsEmpty)"
proof
  assume w: "wrapper ic args kwargs = Inl (AssertionError NamedArgsEmpty)"
  let ?named = "(first_name, first_arg) # others"
  let ?bad = "AssertionError NamedArgsEmpty"
  show False
  proof (cases "this_substitution ic ?named (context_of first_arg)")
    case (Inl e)
    with w assms have "e = ?bad" by (simp add: wrapper_def)
    with Inl show False using this_substitution_Inl by blast
  next
    case s: (Inr s)
    show False
    proof (cases "desugar_this_args ic s args")
      case (Inl e)
      with w assms s have "e = ?bad" by (simp add: wrapper_def)
      with Inl show False using desugar_this_args_Inl by blast
    next
      case a: (Inr args1)
      show False
      proof (cases "desugar_this_kwargs ic s kwargs")
        case (Inl e)
        with w assms s a have "e = ?bad" by (simp add: wrapper_def)
        with Inl show False using desugar_this_kwargs_Inl by blast
      next
        case k: (Inr kwargs1)
        show False
        proof (cases "context_of first_arg")
          case None
          with w assms s a k have "external (func ic args1 kwargs1) = Inl ?bad"
            by (simp add: wrapper_def)
          then show False by (auto dest: external_Inl)
        next
          case c: (Some n)
          show False
          proof (cases "collect (map (context_eval ic n) args1)")
            case (Inl e)
            with w assms s a k c have "e = ?bad" by (simp add: wrapper_def)
            with Inl show False by (auto dest!: collect_Inl dest: context_eval_Inl)
          next
            case a2: (Inr args2)
            show False
            proof (cases "map_values (context_eval ic n) kwargs1")
              case (Inl e)
              with w assms s a k c a2 have "e = ?bad" by (simp add: wrapper_def)
              with Inl have "map_values (context_eval ic n) kwargs1 = Inl ?bad" by simp
              then have "?bad \<noteq> ?bad"
                by (rule map_values_Inl) (rule context_eval_Inl)
              then show False by simp
            next
              case (Inr kwargs2)
              with w assms s a k c a2 have "external (func ic args2 kwargs2) = Inl ?bad"
                by (simp add: wrapper_def)
              then show False by (auto dest: external_Inl)
            qed
          qed
        qed
      qed
    qed
  qed
qed

subsection \<open>The assertion on the bound arguments\<close>

text \<open>
  C10. A call that binds no positional and no keyword argument fails the assertion of
  line 283, whatever the wrapped operation and the collaborators are: nothing is
  rewritten and the operation is not called. The wrapper fails with that assertion
  exactly when no argument is bound to a name, so with at least one bound argument that
  assertion is never the outcome.
\<close>

theorem wrapper_requires_bound_argument:
  "wrapper ic [] [] = Inl (AssertionError NamedArgsEmpty)
   \<and> (wrapper ic args kwargs = Inl (AssertionError NamedArgsEmpty)
        \<longleftrightarrow> named_args_of (arg_names ic) args kwargs = [])"
proof -
  have a: "wrapper ic [] [] = Inl (AssertionError NamedArgsEmpty)"
    by (simp add: wrapper_def named_args_of_def py_dict_def)
  have b: "wrapper ic args kwargs = Inl (AssertionError NamedArgsEmpty)"
    if "named_args_of (arg_names ic) args kwargs = []"
    using that by (simp add: wrapper_def)
  have c: "named_args_of (arg_names ic) args kwargs = []"
    if "wrapper ic args kwargs = Inl (AssertionError NamedArgsEmpty)"
  proof (cases "named_args_of (arg_names ic) args kwargs")
    case Nil
    then show ?thesis .
  next
    case (Cons first others)
    obtain first_name first_arg where "first = (first_name, first_arg)" by (cases first)
    with Cons that wrapper_bound show ?thesis by blast
  qed
  from a b c show ?thesis by blast
qed

theorem wrapper_requires_bound_argument_witness:
  "named_args_of (arg_names example_interception) [Context 8] [] = [(''self'', Context 8)]
   \<and> wrapper example_interception [Context 8] [] \<noteq> Inl (AssertionError NamedArgsEmpty)
   \<and> wrapper example_interception [] [] = Inl (AssertionError NamedArgsEmpty)"
  using wrapper_requires_bound_argument [of example_interception "[Context 8]" "[]"]
  by (simp add: named_args_of_def py_dict_def example_interception_def)

subsection \<open>The substitution of a call\<close>

lemma bind_scopes_other:
  "bind_scopes named_args sp s0 = Inr s \<Longrightarrow> k \<notin> fst ` set sp \<Longrightarrow> s k = s0 k"
proof (induction sp arbitrary: s0)
  case Nil
  then show ?case by simp
next
  case (Cons item rest)
  obtain key v where item: "item = (key, v)" by (cases item)
  from Cons.prems item obtain name a where
    v: "v = Object (PyStr name)" "map_of named_args name = Some a"
    and rest: "bind_scopes named_args rest (s0(key \<mapsto> a)) = Inr s"
    by (auto split: pyval.splits pyobject.splits option.splits)
  from Cons.prems(2) item have "k \<notin> fst ` set rest" "k \<noteq> key" by auto
  with Cons.IH[OF rest] show ?case by simp
qed

lemma bind_scopes_declared:
  assumes "bind_scopes named_args sp s0 = Inr s" and "distinct (map fst sp)"
    and "(k, v) \<in> set sp"
  shows "\<exists>name a. v = Object (PyStr name) \<and> map_of named_args name = Some a \<and> s k = Some a"
  using assms
proof (induction sp arbitrary: s0)
  case Nil
  then show ?case by simp
next
  case (Cons item rest)
  obtain key w where item: "item = (key, w)" by (cases item)
  from Cons.prems(1) item obtain name a where
    w: "w = Object (PyStr name)" "map_of named_args name = Some a"
    and rest: "bind_scopes named_args rest (s0(key \<mapsto> a)) = Inr s"
    by (auto split: pyval.splits pyobject.splits option.splits)
  show ?case
  proof (cases "(k, v) = (key, w)")
    case True
    from Cons.prems(2) item have "key \<notin> fst ` set rest" by auto
    from bind_scopes_other[OF rest this] have "s key = Some a" by simp
    with True w show ?thesis by auto
  next
    case False
    with Cons.prems(3) item have "(k, v) \<in> set rest" by auto
    moreover from Cons.prems(2) have "distinct (map fst rest)" by simp
    ultimately show ?thesis using Cons.IH[OF rest] by blast
  qed
qed

lemma substitution_layers:
  assumes "named_args_of (arg_names ic) args kwargs = (first_name, first_arg) # others"
    and "this_substitution ic (named_args_of (arg_names ic) args kwargs)
           (context_of first_arg) = Inr s"
  shows "(k \<notin> fst ` set (substitution_param ic) \<longrightarrow>
           s k = (case first_arg of
                    Context n \<Rightarrow> update_all Map.empty (ctx_substitution ic n) k
                  | _ \<Rightarrow> None))
       \<and> (distinct (map fst (substitution_param ic))
            \<and> (k, Object (PyStr name)) \<in> set (substitution_param ic) \<longrightarrow>
           s k = map_of (named_args_of (arg_names ic) args kwargs) name \<and> s k \<noteq> None)"
proof (intro conjI impI)
  assume "k \<notin> fst ` set (substitution_param ic)"
  with assms(2) have "s k = (case context_of first_arg of None \<Rightarrow> Map.empty
        | Some n \<Rightarrow> update_all Map.empty (ctx_substitution ic n)) k"
    unfolding this_substitution_def by (rule bind_scopes_other)
  then show "s k = (case first_arg of
                    Context n \<Rightarrow> update_all Map.empty (ctx_substitution ic n) k
                  | _ \<Rightarrow> None)"
    by (cases first_arg) (simp_all add: context_of_def)
next
  assume "distinct (map fst (substitution_param ic))
            \<and> (k, Object (PyStr name)) \<in> set (substitution_param ic)"
  with assms(2) obtain name' a where
    "Object (PyStr name) = Object (PyStr name')"
    "map_of (named_args_of (arg_names ic) args kwargs) name' = Some a" "s k = Some a"
    unfolding this_substitution_def using bind_scopes_declared by blast
  then show "s k = map_of (named_args_of (arg_names ic) args kwargs) name" "s k \<noteq> None"
    by simp_all
qed


lemma wrapper_steps:
  assumes "named_args_of (arg_names ic) args kwargs = (first_name, first_arg) # others"
  shows "wrapper ic args kwargs =
     (case this_substitution ic (named_args_of (arg_names ic) args kwargs)
             (context_of first_arg) of
        Inl e \<Rightarrow> Inl e
      | Inr s \<Rightarrow> rewrite_and_call ic (context_of first_arg) s args kwargs)"
  unfolding wrapper_def rewrite_and_call_def assms by (simp add: Let_def)

lemma this_substitution_other_contexts:
  assumes "\<And>n. desugaring_context = Some n \<Longrightarrow> f n = ctx_substitution ic n"
  shows "this_substitution (ic\<lparr>ctx_substitution := f\<rparr>) named_args desugaring_context
       = this_substitution ic named_args desugaring_context"
  using assms by (cases desugaring_context) (simp_all add: this_substitution_def)

lemma desugar_this_args_other_contexts:
  "desugar_this_args (ic\<lparr>ctx_substitution := f\<rparr>) s args = desugar_this_args ic s args"
proof (induction args)
  case Nil
  then show ?case by simp
next
  case (Cons arg rest)
  then show ?case by (cases arg) (simp_all cong: if_cong sum.case_cong)
qed

lemma expand_guarded_other_contexts:
  "expand_guarded (ic\<lparr>ctx_substitution := f\<rparr>) s kwargs new_kwargs
     = expand_guarded ic s kwargs new_kwargs"
proof (induction kwargs arbitrary: new_kwargs)
  case Nil
  then show ?case by simp
next
  case (Cons item rest)
  obtain name arg where "item = (name, arg)" by (cases item)
  with Cons show ?case by (cases arg) (simp_all cong: if_cong sum.case_cong)
qed

lemma context_eval_other_contexts:
  "context_eval (ic\<lparr>ctx_substitution := f\<rparr>) n = context_eval ic n"
  by (rule ext) (simp add: context_eval_def cong: pyval.case_cong)

lemma rewrite_and_call_other_contexts:
  "rewrite_and_call (ic\<lparr>ctx_substitution := f\<rparr>) desugaring_context s args kwargs
     = rewrite_and_call ic desugaring_context s args kwargs"
  by (simp add: rewrite_and_call_def desugar_this_args_other_contexts desugar_this_kwargs_def
      expand_guarded_other_contexts context_eval_other_contexts
      cong: sum.case_cong option.case_cong)

lemma wrapper_other_contexts:
  assumes "named_args_of (arg_names ic) args kwargs = (first_name, first_arg) # others"
    and "\<forall>n. first_arg = Context n \<longrightarrow> f n = ctx_substitution ic n"
  shows "wrapper (ic\<lparr>ctx_substitution := f\<rparr>) args kwargs = wrapper ic args kwargs"
proof -
  have named: "named_args_of (arg_names (ic\<lparr>ctx_substitution := f\<rparr>)) args kwargs
      = (first_name, first_arg) # others"
    using assms(1) by simp
  have same: "this_substitution (ic\<lparr>ctx_substitution := f\<rparr>)
        (named_args_of (arg_names ic) args kwargs) (context_of first_arg)
      = this_substitution ic (named_args_of (arg_names ic) args kwargs) (context_of first_arg)"
  proof (rule this_substitution_other_contexts)
    fix n assume "context_of first_arg = Some n"
    then have "first_arg = Context n"
      by (cases first_arg) (simp_all add: context_of_def)
    with assms(2) show "f n = ctx_substitution ic n" by simp
  qed
  show ?thesis
    unfolding wrapper_steps[OF named] wrapper_steps[OF assms(1)]
    by (simp add: same rewrite_and_call_other_contexts cong: sum.case_cong)
qed

text \<open>
  C4, as the code has it. The wrapper looks at the first bound argument only: its outcome
  is that of lines 297 to 308 run with the substitution of lines 289 to 295 for the
  context of that argument. When the first bound argument is a rewriting context, the
  substitution of the call starts from the context's currently active substitution,
  otherwise from the empty one; the scope bindings the operation declares (a scope token
  and the name of one of the call's bound arguments) are then stored on top. So a scope
  token the operation does not declare keeps the binding inherited from the first
  argument, and a declared one is bound to the named argument of this call. The active
  substitution of any context other than the first bound argument has no part in the
  outcome: replacing it leaves the result of the call as it was.
\<close>

theorem wrapper_inherits_from_first_argument:
  assumes "named_args_of (arg_names ic) args kwargs = (first_name, first_arg) # others"
  shows "wrapper ic args kwargs =
           (case this_substitution ic (named_args_of (arg_names ic) args kwargs)
                   (context_of first_arg) of
              Inl e \<Rightarrow> Inl e
            | Inr s \<Rightarrow> rewrite_and_call ic (context_of first_arg) s args kwargs)
       \<and> (this_substitution ic (named_args_of (arg_names ic) args kwargs)
             (context_of first_arg) = Inr s \<longrightarrow>
            (k \<notin> fst ` set (substitution_param ic) \<longrightarrow>
               s k = (case first_arg of
                        Context n \<Rightarrow> update_all Map.empty (ctx_substitution ic n) k
                      | _ \<Rightarrow> None))
          \<and> (distinct (map fst (substitution_param ic))
                \<and> (k, Object (PyStr name)) \<in> set (substitution_param ic) \<longrightarrow>
               s k = map_of (named_args_of (arg_names ic) args kwargs) name \<and> s k \<noteq> None))
       \<and> ((\<forall>n. first_arg = Context n \<longrightarrow> f n = ctx_substitution ic n) \<longrightarrow>
            wrapper (ic\<lparr>ctx_substitution := f\<rparr>) args kwargs = wrapper ic args kwargs)"
proof (intro conjI impI)
  show "wrapper ic args kwargs =
           (case this_substitution ic (named_args_of (arg_names ic) args kwargs)
                   (context_of first_arg) of
              Inl e \<Rightarrow> Inl e
            | Inr s \<Rightarrow> rewrite_and_call ic (context_of first_arg) s args kwargs)"
    by (rule wrapper_steps[OF assms])
next
  assume s: "this_substitution ic (named_args_of (arg_names ic) args kwargs)
             (context_of first_arg) = Inr s"
    and "k \<notin> fst ` set (substitution_param ic)"
  with substitution_layers[OF assms s, of k name]
  show "s k = (case first_arg of
                        Context n \<Rightarrow> update_all Map.empty (ctx_substitution ic n) k
                      | _ \<Rightarrow> None)"
    by (rule_tac conjunct1[THEN mp])
next
  assume s: "this_substitution ic (named_args_of (arg_names ic) args kwargs)
             (context_of first_arg) = Inr s"
    and d: "distinct (map fst (substitution_param ic))
                \<and> (k, Object (PyStr name)) \<in> set (substitution_param ic)"
  note l = substitution_layers[OF assms s, of k name, THEN conjunct2, THEN mp, OF d]
  from l show "s k = map_of (named_args_of (arg_names ic) args kwargs) name" by (rule conjunct1)
  from l show "s k \<noteq> None" by (rule conjunct2)
next
  assume "\<forall>n. first_arg = Context n \<longrightarrow> f n = ctx_substitution ic n"
  with assms show "wrapper (ic\<lparr>ctx_substitution := f\<rparr>) args kwargs = wrapper ic args kwargs"
    by (rule wrapper_other_contexts)
qed

theorem wrapper_inherits_from_first_argument_witness:
  "named_args_of (arg_names example_interception)
       [Context 7, Context 8, Expression (ColumnReference (This 0) ''a'')] []
     = (''self'', Context 7) # [(''other'', Context 8),
        (''expression'', Expression (ColumnReference (This 0) ''a''))]
   \<and> this_substitution example_interception
       (named_args_of (arg_names example_interception)
          [Context 7, Context 8, Expression (ColumnReference (This 0) ''a'')] [])
       (context_of (Context 7))
     = Inr (Map.empty(0 \<mapsto> Context 7, 1 \<mapsto> Context 8))
   \<and> (Map.empty(0 \<mapsto> Context 7, 1 \<mapsto> Context 8)) (0::nat)
     = update_all Map.empty (ctx_substitution example_interception 7) 0
   \<and> (Map.empty(0 \<mapsto> Context 7, 1 \<mapsto> Context 8)) (1::nat)
     = map_of (named_args_of (arg_names example_interception)
          [Context 7, Context 8, Expression (ColumnReference (This 0) ''a'')] []) ''other''
   \<and> wrapper example_interception
         [Context 7, Context 8, Expression (ColumnReference (This 0) ''a'')] []
     = rewrite_and_call example_interception (Some 7)
         (Map.empty(0 \<mapsto> Context 7, 1 \<mapsto> Context 8))
         [Context 7, Context 8, Expression (ColumnReference (This 0) ''a'')] []
   \<and> wrapper (example_interception
           \<lparr>ctx_substitution := (\<lambda>n. if n = 7 then [(0, Context 7)] else [(0, Context 99)])\<rparr>)
         [Context 7, Context 8, Expression (ColumnReference (This 0) ''a'')] []
     = wrapper example_interception
         [Context 7, Context 8, Expression (ColumnReference (This 0) ''a'')] []"
proof -
  let ?args = "[Context 7, Context 8, Expression (ColumnReference (This 0) ''a'')]"
  let ?s = "Map.empty(0 \<mapsto> Context 7, 1 \<mapsto> Context 8) :: substitution"
  let ?f = "\<lambda>n::nat. if n = 7 then [(0::nat, Context 7)] else [(0, Context 99)]"
  have named: "named_args_of (arg_names example_interception) ?args []
     = (''self'', Context 7) # [(''other'', Context 8),
        (''expression'', Expression (ColumnReference (This 0) ''a''))]"
    by (simp add: example_interception_def named_args_of_def py_dict_def)
  have sub: "this_substitution example_interception
       (named_args_of (arg_names example_interception) ?args []) (context_of (Context 7))
     = Inr ?s"
    unfolding named by (simp add: example_interception_def this_substitution_def context_of_def)
  have fresh: "(0::nat) \<notin> fst ` set (substitution_param example_interception)"
    by (simp add: example_interception_def)
  have declared: "distinct (map fst (substitution_param example_interception))
       \<and> (1, Object (PyStr ''other'')) \<in> set (substitution_param example_interception)"
    by (simp add: example_interception_def)
  have agree: "\<forall>n. Context 7 = Context n \<longrightarrow> ?f n = ctx_substitution example_interception n"
    by (simp add: example_interception_def)
  note t0 = wrapper_inherits_from_first_argument
      [OF named, where s="?s" and k=0 and name="''other''" and f="?f"]
  note t1 = wrapper_inherits_from_first_argument
      [OF named, where s="?s" and k=1 and name="''other''" and f="?f"]
  have "?s 0 = (case Context 7 of
            Context n \<Rightarrow> update_all Map.empty (ctx_substitution example_interception n) 0
          | _ \<Rightarrow> None)"
    by (rule t0 [THEN conjunct2, THEN conjunct1, THEN mp, OF sub,
          THEN conjunct1, THEN mp, OF fresh])
  then have a: "?s 0 = update_all Map.empty (ctx_substitution example_interception 7) 0"
    by (simp only: pyval.case)
  have b: "?s 1 = map_of (named_args_of (arg_names example_interception) ?args []) ''other''"
    by (rule t1 [THEN conjunct2, THEN conjunct1, THEN mp, OF sub,
          THEN conjunct2, THEN mp, OF declared, THEN conjunct1])
  have "wrapper example_interception ?args [] =
      (case this_substitution example_interception
              (named_args_of (arg_names example_interception) ?args [])
              (context_of (Context 7)) of
         Inl e \<Rightarrow> Inl e
       | Inr s \<Rightarrow> rewrite_and_call example_interception (context_of (Context 7)) s ?args [])"
    by (rule t0 [THEN conjunct1])
  then have c: "wrapper example_interception ?args []
      = rewrite_and_call example_interception (Some 7) ?s ?args []"
    unfolding sub by (simp add: context_of_def)
  have d: "wrapper (example_interception\<lparr>ctx_substitution := ?f\<rparr>) ?args []
      = wrapper example_interception ?args []"
    by (rule t0 [THEN conjunct2, THEN conjunct2, THEN mp, OF agree])
  show ?thesis by (intro conjI named sub a b c d)
qed

text \<open>
  C4 as stated fails: the second bound argument is a rewriting context whose active
  substitution binds token 0, the first one is not a context. Nothing is inherited and
  the reference to token 0 stays unresolved; with the context in the first place the
  same reference resolves.
\<close>

theorem wrapper_ignores_later_context:
  "named_args_of (arg_names example_interception)
       [Object (PyInt 1), Context 8, Expression (ColumnReference (This 0) ''a'')] []
     = [(''self'', Object (PyInt 1)), (''other'', Context 8),
        (''expression'', Expression (ColumnReference (This 0) ''a''))]
   \<and> update_all Map.empty (ctx_substitution example_interception 8) 0 = Some (Context 8)
   \<and> wrapper example_interception [Object (PyInt 1), Context 8, Expression (ColumnReference (This 0) ''a'')] []
     = Inl (UnresolvedScope 0)
   \<and> wrapper example_interception [Context 8, Object (PyInt 1), Expression (ColumnReference (This 0) ''a'')] []
     = Inr [Context 8, Object (PyInt 1), Expression (ColumnReference (Table 8) ''a'')]"
  by (simp add: example_interception_def wrapper_def named_args_of_def py_dict_def context_of_def
      this_substitution_def desugar_this_arg_def this_eval_column_val_def desugar_table_def
      eval_substitution_def as_relation_def desugar_this_kwargs_def map_values_def
      context_eval_def external_def)

end
